theory Spec2Isabelle
  imports Main "HOL-Library.Word"
begin

section \<open>JavaScript string and BigInt helpers\<close>

text \<open>
  Strings are lists of code units. \<open>BigInt('0x' + s)\<close> accepts one or more hexadecimal
  digits, optionally followed by white space, and throws a SyntaxError otherwise; the
  exception is the value \<open>None\<close>.
\<close>

definition isHexDigit :: "char \<Rightarrow> bool" where
  "isHexDigit c = (c \<in> set ''0123456789abcdefABCDEF'')"

definition hexDigitVal :: "char \<Rightarrow> nat" where
  "hexDigitVal c =
     (let n = of_char c :: nat in
      if 48 \<le> n \<and> n \<le> 57 then n - 48
      else if 97 \<le> n \<and> n \<le> 102 then n - 87
      else n - 55)"

definition isJsSpace :: "char \<Rightarrow> bool" where
  "isJsSpace c = ((of_char c :: nat) \<in> {9, 10, 11, 12, 13, 32, 160})"

definition hexValue :: "string \<Rightarrow> nat" where
  "hexValue s = foldl (\<lambda>acc c. 16 * acc + hexDigitVal c) 0 s"

definition testHex :: "string \<Rightarrow> bool" where
  \<comment> \<open>\<open>/^[0-9a-fA-F]+$/.test(s)\<close>\<close>
  "testHex s = (s \<noteq> [] \<and> list_all isHexDigit s)"

definition bigIntOfHex :: "string \<Rightarrow> nat option" where
  \<comment> \<open>\<open>BigInt('0x' + s)\<close>\<close>
  "bigIntOfHex s =
     (let digits = rev (dropWhile isJsSpace (rev s))
      in if testHex digits then Some (hexValue digits) else None)"

definition startsWith0x :: "string \<Rightarrow> bool" where
  "startsWith0x s = (take 2 s = ''0x'')"

text \<open>\<open>n.toString(b)\<close> of a non-negative integer, for a radix \<open>2 \<le> b \<le> 36\<close>.\<close>

definition digitChar :: "nat \<Rightarrow> char" where
  "digitChar n = (''0123456789abcdefghijklmnopqrstuvwxyz'' ! n)"

function toStringBase :: "nat \<Rightarrow> nat \<Rightarrow> string" where
  "toStringBase b n =
     (if n < b \<or> b < 2 then [digitChar n]
      else toStringBase b (n div b) @ [digitChar (n mod b)])"
  by pat_completeness auto
termination
  by (relation "measure (\<lambda>(b, n). n)") auto

declare toStringBase.simps [simp del]

definition padStart :: "nat \<Rightarrow> char \<Rightarrow> string \<Rightarrow> string" where
  "padStart w c s = replicate (w - length s) c @ s"

definition hexToDecimal :: "string \<Rightarrow> string option" where
  \<comment> \<open>the local helper of \<open>verifySnarkProof\<close>; \<open>None\<close> is the SyntaxError of \<open>BigInt\<close>\<close>
  "hexToDecimal hex =
     (let cleanHex = (if startsWith0x hex then drop 2 hex else hex)
      in map_option (toStringBase 10) (bigIntOfHex cleanHex))"

section \<open>Hybrid verifier (verifier-service)\<close>

record SnarkProof =
  pi_a :: "string list"
  pi_b :: "string list list"
  pi_c :: "string list"
  protocol :: string
  curve :: string

record SnarkPublicInputs =
  pseudonym :: string
  nullifier :: string
  commitmentHash :: string
  registryRoot :: string
  challenge :: string

record BBSSelectiveDisclosureProof =
  bbsProofBytes :: string
  revealedIndices :: "int list"
  revealedMessages :: "int \<rightharpoonup> string"
  issuerPublicKey :: string
  nonce :: string

record HybridAuthProof =
  snarkProof :: SnarkProof
  publicInputs :: SnarkPublicInputs
  bbsProof :: "BBSSelectiveDisclosureProof option"
  declaredCommitmentHash :: string

record HybridAuthPackage =
  pkgChallengeId :: string
  pkgChallenge :: string
  hybridProof :: HybridAuthProof
  pkgPseudonym :: string
  pkgNullifier :: string
  pkgDomain :: string
  pkgRegistryRoot :: string
  pkgTimestamp :: int

record 'attrs HybridVerificationResult =
  valid :: bool
  snarkValid :: bool
  bbsValid :: bool
  bindingValid :: bool
  registryRootValid :: bool
  nullifierFresh :: bool
  resPseudonym :: "string option"
  resDomain :: "string option"
  resRevealedAttributes :: "'attrs option"
  resError :: "string option"

text \<open>
  What \<open>snarkjs.groth16.verify\<close> did on a call: it returned a boolean or it threw.
  The library is outside the repository, so the verifier is parametrised by it.
\<close>

datatype snarkjs_outcome = Returned bool | Threw

text \<open>
  What a \<open>fetch\<close> followed by \<open>response.json()\<close> did: the request failed (network
  error, unparsable body), or a response arrived with its \<open>ok\<close> flag and decoded body.
\<close>

datatype 'body fetch_outcome = FetchFailed | Response bool 'body

record 'vk HybridVerifier =
  verificationKey :: "'vk option"
  circuitReady :: bool

definition validateSnarkStructure :: "SnarkProof \<Rightarrow> bool" where
  "validateSnarkStructure p =
     (if length (pi_a p) < 2 then False
      else if length (pi_c p) < 2 then False
      else if pi_b p = [] then False
      else True)"

definition isDemoModeProof :: "SnarkProof \<Rightarrow> bool" where
  "isDemoModeProof p =
     (if length (pi_a p) \<ge> 2 \<and> pi_a p ! 0 = pi_a p ! 1 then True
      else if length (pi_c p) \<ge> 2 \<and> pi_c p ! 0 = pi_c p ! 1 then True
      else False)"

definition performStructuralVerification :: "SnarkProof \<Rightarrow> SnarkPublicInputs \<Rightarrow> bool" where
  "performStructuralVerification p inputs =
     (let hasContent = list_ex (\<lambda>v. v \<noteq> ''0'' \<and> v \<noteq> '''' \<and> v \<noteq> ''1'') (pi_a p)
      in if \<not> hasContent then False
         else if \<not> testHex (pseudonym inputs) then False
         else if \<not> testHex (nullifier inputs) then False
         else True)"

definition publicSignalsOf :: "SnarkPublicInputs \<Rightarrow> string list option" where
  \<comment> \<open>the five \<open>hexToDecimal\<close> calls, in the circuit's order; any of them may throw\<close>
  "publicSignalsOf inputs =
     (case hexToDecimal (pseudonym inputs) of None \<Rightarrow> None | Some a \<Rightarrow>
      case hexToDecimal (nullifier inputs) of None \<Rightarrow> None | Some b \<Rightarrow>
      case hexToDecimal (commitmentHash inputs) of None \<Rightarrow> None | Some c \<Rightarrow>
      case hexToDecimal (registryRoot inputs) of None \<Rightarrow> None | Some d \<Rightarrow>
      case hexToDecimal (challenge inputs) of None \<Rightarrow> None | Some e \<Rightarrow>
      Some [a, b, c, d, e])"

definition verifySnarkProof ::
  "('vk \<Rightarrow> string list \<Rightarrow> SnarkProof \<Rightarrow> snarkjs_outcome) \<Rightarrow> 'vk HybridVerifier \<Rightarrow>
   HybridAuthProof \<Rightarrow> bool" where
  "verifySnarkProof groth16_verify this hp =
     (let p = snarkProof hp; inputs = publicInputs hp in
      if \<not> validateSnarkStructure p then False
      else case (circuitReady this, verificationKey this) of
        (True, Some vk) \<Rightarrow>
          (case publicSignalsOf inputs of
             None \<Rightarrow> performStructuralVerification p inputs
           | Some publicSignals \<Rightarrow>
              (case groth16_verify vk publicSignals p of
                 Threw \<Rightarrow> performStructuralVerification p inputs
               | Returned isValid \<Rightarrow>
                   if \<not> isValid then
                     (if isDemoModeProof p then performStructuralVerification p inputs
                      else isValid)
                   else isValid))
      | _ \<Rightarrow> performStructuralVerification p inputs)"

definition verifyBBSProof :: "BBSSelectiveDisclosureProof \<Rightarrow> bool" where
  "verifyBBSProof b =
     (if bbsProofBytes b = [] then False
      else if 0 \<notin> set (revealedIndices b) then False
      else case revealedMessages b 0 of
             None \<Rightarrow> False
           | Some m \<Rightarrow> if m = [] then False else True)"

text \<open>
  \<open>verifyBinding\<close> reads \<open>revealedMessages[0].substring\<close>, which throws a TypeError
  when the entry is missing: \<open>None\<close>.
\<close>

definition verifyBinding :: "HybridAuthProof \<Rightarrow> bool option" where
  "verifyBinding hp =
     (let snarkCommitment = commitmentHash (publicInputs hp);
          declaredCommitment = declaredCommitmentHash hp
      in if snarkCommitment \<noteq> declaredCommitment then Some False
         else case bbsProof hp of
           None \<Rightarrow> Some True
         | Some b \<Rightarrow>
            (case revealedMessages b 0 of
               None \<Rightarrow> None
             | Some bbsCommitment \<Rightarrow>
                 if bbsCommitment \<noteq> snarkCommitment then Some False else Some True))"

text \<open>
  The body of \<open>GET /merkle/root\<close> carries \<open>root\<close>; a body without it makes
  \<open>currentRoot.substring\<close> throw inside the \<open>try\<close>.
\<close>

definition verifyRegistryRoot :: "string option fetch_outcome \<Rightarrow> string \<Rightarrow> bool" where
  "verifyRegistryRoot response claimedRoot =
     (case response of
        FetchFailed \<Rightarrow> True
      | Response ok body \<Rightarrow>
          if \<not> ok then True
          else case body of
            None \<Rightarrow> True
          | Some currentRoot \<Rightarrow>
              if currentRoot = claimedRoot then True
              else if claimedRoot \<noteq> [] \<and> length claimedRoot = 64 then True
              else False)"

definition checkNullifierFresh :: "bool fetch_outcome \<Rightarrow> string \<Rightarrow> bool" where
  \<comment> \<open>the body of \<open>POST /nullifiers/check\<close> is reduced to its \<open>used\<close> flag\<close>
  "checkNullifierFresh response nf =
     (case response of
        FetchFailed \<Rightarrow> True
      | Response ok used \<Rightarrow> if \<not> ok then True else \<not> used)"

definition initialResult :: "'attrs HybridVerificationResult" where
  "initialResult =
     \<lparr> valid = False, snarkValid = False, bbsValid = True, bindingValid = False,
       registryRootValid = False, nullifierFresh = False, resPseudonym = None,
       resDomain = None, resRevealedAttributes = None, resError = None \<rparr>"

text \<open>
  \<open>verify\<close>, with the registry's two answers and the snarkjs library as parameters.
  \<open>extractRevealedAttributes\<close> only fills the result's attribute field and cannot throw;
  it is the parameter \<open>extract\<close>.
\<close>

definition verify ::
  "('vk \<Rightarrow> string list \<Rightarrow> SnarkProof \<Rightarrow> snarkjs_outcome) \<Rightarrow>
   (BBSSelectiveDisclosureProof \<Rightarrow> 'attrs) \<Rightarrow>
   string option fetch_outcome \<Rightarrow> bool fetch_outcome \<Rightarrow>
   'vk HybridVerifier \<Rightarrow> HybridAuthPackage \<Rightarrow> 'attrs HybridVerificationResult" where
  "verify groth16_verify extract rootResponse checkResponse this authPackage =
     (let hp = hybridProof authPackage;
          r0 = initialResult;
          r1 = r0\<lparr>snarkValid := verifySnarkProof groth16_verify this hp\<rparr>
      in if \<not> snarkValid r1 then r1\<lparr>resError := Some ''SNARK proof verification failed''\<rparr>
      else
       let r2 = (case bbsProof hp of
                   None \<Rightarrow> r1
                 | Some b \<Rightarrow> r1\<lparr>bbsValid := verifyBBSProof b\<rparr>)
       in if \<not> bbsValid r2 then r2\<lparr>resError := Some ''BBS+ proof verification failed''\<rparr>
       else case verifyBinding hp of
         None \<Rightarrow> r2\<lparr>resError := Some ''TypeError''\<rparr>
       | Some binding \<Rightarrow>
         let r3 = r2\<lparr>bindingValid := binding\<rparr>
         in if \<not> bindingValid r3
            then r3\<lparr>resError := Some ''Proof binding verification failed''\<rparr>
         else
          let r4 = r3\<lparr>registryRootValid :=
                        verifyRegistryRoot rootResponse (pkgRegistryRoot authPackage)\<rparr>
          in if \<not> registryRootValid r4 then r4\<lparr>resError := Some ''Registry root mismatch''\<rparr>
          else
           let r5 = r4\<lparr>nullifierFresh :=
                         checkNullifierFresh checkResponse (pkgNullifier authPackage)\<rparr>
           in if \<not> nullifierFresh r5
              then r5\<lparr>resError := Some ''Nullifier already used (replay attack detected)''\<rparr>
           else r5\<lparr>valid := True,
                   resPseudonym := Some (pkgPseudonym authPackage),
                   resDomain := Some (pkgDomain authPackage),
                   resRevealedAttributes := map_option extract (bbsProof hp)\<rparr>)"

definition unavailable :: "'body fetch_outcome \<Rightarrow> bool" where
  \<comment> \<open>the request failed, or the registry answered with a non-OK status\<close>
  "unavailable response = (case response of FetchFailed \<Rightarrow> True | Response ok _ \<Rightarrow> \<not> ok)"

definition demoProof :: SnarkProof where
  "demoProof = \<lparr> pi_a = [''ab'', ''ab'', ''1''], pi_b = [[''ab'', ''ab''], [''ab'', ''ab''], [''1'', ''0'']],
                 pi_c = [''ab'', ''ab'', ''1''], protocol = ''groth16'', curve = ''bn128'' \<rparr>"

definition demoInputs :: SnarkPublicInputs where
  "demoInputs = \<lparr> pseudonym = ''0a'', nullifier = ''0b'', commitmentHash = ''0c'',
                  registryRoot = ''0d'', challenge = ''0e'' \<rparr>"

definition demoHybridProof :: HybridAuthProof where
  "demoHybridProof = \<lparr> snarkProof = demoProof, publicInputs = demoInputs, bbsProof = None,
                       declaredCommitmentHash = ''0c'' \<rparr>"

definition demoPackage :: HybridAuthPackage where
  "demoPackage = \<lparr> pkgChallengeId = ''ch_1_00'', pkgChallenge = ''0e'',
                   hybridProof = demoHybridProof, pkgPseudonym = ''0a'', pkgNullifier = ''0b'',
                   pkgDomain = ''example.com'', pkgRegistryRoot = ''0d'', pkgTimestamp = 0 \<rparr>"

definition readyVerifier :: "unit HybridVerifier" where
  "readyVerifier = \<lparr> verificationKey = Some (), circuitReady = True \<rparr>"

section \<open>Indexed Merkle tree (registry-service)\<close>

text \<open>
  The two wrappers \<open>poseidonHash2\<close> and \<open>poseidonHash3\<close> around circomlibjs (reduction
  into the field, Poseidon, conversion back to a bigint) are parameters \<open>P2\<close> and
  \<open>P3\<close> of every operation that hashes. Values are non-negative bigints.
\<close>

datatype js_error = SyntaxError | TypeError | Error string

definition hexToBigInt :: "string \<Rightarrow> nat option" where
  "hexToBigInt hex =
     (if hex = [] \<or> hex = ''0'' \<or> hex = ''0x0'' then Some 0
      else let cleanHex = (if startsWith0x hex then drop 2 hex else hex)
           in if length cleanHex = 0 then Some 0 else bigIntOfHex cleanHex)"

definition bigIntToHex :: "nat \<Rightarrow> string" where
  "bigIntToHex n = padStart 64 CHR ''0'' (toStringBase 16 n)"

record MerkleProof =
  leaf :: string
  root :: string
  siblings :: "string list"
  pathIndices :: "nat list"
  leafIndex :: nat
  lowNullifier :: "string option"
  lowNullifierNextValue :: "string option"
  lowNullifierNextIdx :: "nat option"

record IndexedLeaf =
  leafValue :: nat
  nextValue :: nat
  nextIdx :: nat

record IndexedMerkleTree =
  leaves :: "IndexedLeaf list"
  tree :: "nat list list"
  height :: nat
  nullifierIndex :: "string \<rightharpoonup> nat"
  emptySubtreeHashes :: "nat list"
  initialized :: bool

definition newIndexedMerkleTree :: "nat \<Rightarrow> IndexedMerkleTree" where
  \<comment> \<open>the constructor\<close>
  "newIndexedMerkleTree h =
     \<lparr> leaves = [], tree = [], height = h, nullifierIndex = Map.empty,
       emptySubtreeHashes = [], initialized = False \<rparr>"

definition TREE_HEIGHT :: nat where
  "TREE_HEIGHT = 20"

definition leafHash :: "(nat \<Rightarrow> nat \<Rightarrow> nat \<Rightarrow> nat) \<Rightarrow> IndexedLeaf \<Rightarrow> nat" where
  "leafHash P3 l = P3 (leafValue l) (nextValue l) (nextIdx l)"

definition getEmptyLeafHash :: "(nat \<Rightarrow> nat \<Rightarrow> nat \<Rightarrow> nat) \<Rightarrow> nat" where
  "getEmptyLeafHash P3 = P3 0 0 0"

text \<open>
  Loop bodies are functions of the loop index and the variables the loop updates; the loop
  is their \<open>fold\<close> over the index range.
\<close>

definition emptySubtreeStep ::
  "(nat \<Rightarrow> nat \<Rightarrow> nat) \<Rightarrow> nat \<Rightarrow> nat list \<times> nat \<Rightarrow> nat list \<times> nat" where
  \<comment> \<open>the state is \<open>(this.emptySubtreeHashes, currentHash)\<close>\<close>
  "emptySubtreeStep P2 level st =
     (let currentHash = P2 (snd st) (snd st)
      in (fst st @ [currentHash], currentHash))"

definition computeEmptySubtreeHashes ::
  "(nat \<Rightarrow> nat \<Rightarrow> nat) \<Rightarrow> (nat \<Rightarrow> nat \<Rightarrow> nat \<Rightarrow> nat) \<Rightarrow> IndexedMerkleTree \<Rightarrow> IndexedMerkleTree" where
  "computeEmptySubtreeHashes P2 P3 t =
     (if length (emptySubtreeHashes t) > 0 then t
      else
        let emptyLeaf = getEmptyLeafHash P3
        in t\<lparr>emptySubtreeHashes :=
               fst (fold (emptySubtreeStep P2) [0..<height t] ([emptyLeaf], emptyLeaf))\<rparr>)"

text \<open>
  One level of \<open>rebuildTree\<close>: node \<open>i\<close> hashes the entries \<open>2i\<close> and \<open>2i+1\<close> of the
  level below, an entry beyond its end being the empty-subtree hash of that level.
\<close>

fun hashPairs :: "(nat \<Rightarrow> nat \<Rightarrow> nat) \<Rightarrow> nat \<Rightarrow> nat list \<Rightarrow> nat list" where
  "hashPairs P2 emptySubtree [] = []"
| "hashPairs P2 emptySubtree [left] = [P2 left emptySubtree]"
| "hashPairs P2 emptySubtree (left # right # rest) =
     P2 left right # hashPairs P2 emptySubtree rest"

definition rebuildLevel ::
  "(nat \<Rightarrow> nat \<Rightarrow> nat) \<Rightarrow> nat list \<Rightarrow> nat \<Rightarrow> nat list list \<times> nat list \<Rightarrow>
   nat list list \<times> nat list" where
  \<comment> \<open>the state is \<open>(this.tree, currentLevel)\<close>\<close>
  "rebuildLevel P2 empties level st =
     (let emptySubtree = empties ! level;
          pairs = hashPairs P2 emptySubtree (snd st);
          nextLevel = (if length pairs = 0 then [P2 emptySubtree emptySubtree] else pairs)
      in (fst st @ [nextLevel], nextLevel))"

definition rebuildTree ::
  "(nat \<Rightarrow> nat \<Rightarrow> nat) \<Rightarrow> (nat \<Rightarrow> nat \<Rightarrow> nat \<Rightarrow> nat) \<Rightarrow> IndexedMerkleTree \<Rightarrow> IndexedMerkleTree" where
  "rebuildTree P2 P3 t0 =
     (let t = computeEmptySubtreeHashes P2 P3 t0;
          leafHashes = map (leafHash P3) (leaves t)
      in t\<lparr>tree := fst (fold (rebuildLevel P2 (emptySubtreeHashes t)) [0..<height t]
                              ([leafHashes], leafHashes))\<rparr>)"

definition initializeEmptyTree ::
  "(nat \<Rightarrow> nat \<Rightarrow> nat) \<Rightarrow> (nat \<Rightarrow> nat \<Rightarrow> nat \<Rightarrow> nat) \<Rightarrow> IndexedMerkleTree \<Rightarrow> IndexedMerkleTree" where
  "initializeEmptyTree P2 P3 t =
     rebuildTree P2 P3 (t\<lparr>leaves := [\<lparr>leafValue = 0, nextValue = 0, nextIdx = 0\<rparr>]\<rparr>)"

definition initialize ::
  "(nat \<Rightarrow> nat \<Rightarrow> nat) \<Rightarrow> (nat \<Rightarrow> nat \<Rightarrow> nat \<Rightarrow> nat) \<Rightarrow> IndexedMerkleTree \<Rightarrow> IndexedMerkleTree" where
  "initialize P2 P3 t = (initializeEmptyTree P2 P3 t)\<lparr>initialized := True\<rparr>"

definition getRootBigInt :: "(nat \<Rightarrow> nat \<Rightarrow> nat \<Rightarrow> nat) \<Rightarrow> IndexedMerkleTree \<Rightarrow> nat" where
  "getRootBigInt P3 t =
     (if length (tree t) = 0 \<or> length (last (tree t)) = 0 then getEmptyLeafHash P3
      else last (tree t) ! 0)"

definition getRoot :: "(nat \<Rightarrow> nat \<Rightarrow> nat \<Rightarrow> nat) \<Rightarrow> IndexedMerkleTree \<Rightarrow> string" where
  "getRoot P3 t = bigIntToHex (getRootBigInt P3 t)"

definition predecessorStep :: "IndexedLeaf list \<Rightarrow> nat \<Rightarrow> nat \<Rightarrow> nat \<Rightarrow> nat" where
  "predecessorStep ls v i predecessorIdx =
     (if leafValue (ls ! i) < v \<and> leafValue (ls ! i) > leafValue (ls ! predecessorIdx)
      then i else predecessorIdx)"

definition findPredecessor :: "IndexedLeaf list \<Rightarrow> nat \<Rightarrow> nat" where
  \<comment> \<open>the predecessor scan of \<open>addLeaf\<close>, starting from index 0\<close>
  "findPredecessor ls v = fold (predecessorStep ls v) [0..<length ls] 0"

text \<open>
  \<open>addLeaf\<close> returns the new state and the index. \<open>hexToBigInt\<close> runs first and may
  throw; on a tree that was never initialised \<open>this.leaves[0]\<close> is undefined and the
  read of its \<open>nextValue\<close> throws.
\<close>

definition addLeaf ::
  "(nat \<Rightarrow> nat \<Rightarrow> nat) \<Rightarrow> (nat \<Rightarrow> nat \<Rightarrow> nat \<Rightarrow> nat) \<Rightarrow> IndexedMerkleTree \<Rightarrow> string \<Rightarrow>
   js_error + (IndexedMerkleTree \<times> nat)" where
  "addLeaf P2 P3 t nf =
     (case hexToBigInt nf of
        None \<Rightarrow> Inl SyntaxError
      | Some nullifierBigInt \<Rightarrow>
         (case nullifierIndex t nf of
            Some idx \<Rightarrow> Inr (t, idx)
          | None \<Rightarrow>
             if leaves t = [] then Inl TypeError
             else
               let predecessorIdx = findPredecessor (leaves t) nullifierBigInt;
                   newIdx = length (leaves t);
                   newLeaf = \<lparr> leafValue = nullifierBigInt,
                               nextValue = nextValue (leaves t ! predecessorIdx),
                               nextIdx = nextIdx (leaves t ! predecessorIdx) \<rparr>;
                   updated = (leaves t)[predecessorIdx :=
                                (leaves t ! predecessorIdx)\<lparr>nextValue := nullifierBigInt,
                                                              nextIdx := newIdx\<rparr>];
                   t1 = t\<lparr>leaves := updated @ [newLeaf],
                          nullifierIndex := (nullifierIndex t)(nf \<mapsto> newIdx)\<rparr>
               in Inr (rebuildTree P2 P3 t1, newIdx)))"

fun addLeaves ::
  "(nat \<Rightarrow> nat \<Rightarrow> nat) \<Rightarrow> (nat \<Rightarrow> nat \<Rightarrow> nat \<Rightarrow> nat) \<Rightarrow> IndexedMerkleTree \<Rightarrow> string list \<Rightarrow>
   js_error + IndexedMerkleTree" where
  \<comment> \<open>a sequence of \<open>addLeaf\<close> calls, stopping at the first that throws\<close>
  "addLeaves P2 P3 t [] = Inr t"
| "addLeaves P2 P3 t (nf # nfs) =
     (case addLeaf P2 P3 t nf of
        Inl e \<Rightarrow> Inl e
      | Inr (t', idx) \<Rightarrow> addLeaves P2 P3 t' nfs)"

definition hasNullifier :: "IndexedMerkleTree \<Rightarrow> string \<Rightarrow> bool" where
  "hasNullifier t nf = (nullifierIndex t nf \<noteq> None)"

definition siblingStep ::
  "IndexedMerkleTree \<Rightarrow> nat \<Rightarrow> string list \<times> nat \<Rightarrow> string list \<times> nat" where
  \<comment> \<open>the state is \<open>(siblings, currentIndex)\<close>\<close>
  "siblingStep t level st =
     (let levelNodes = tree t ! level;
          currentIndex = snd st;
          sib = (if currentIndex mod 2 = 0
                 then (if currentIndex + 1 < length levelNodes
                       then bigIntToHex (levelNodes ! (currentIndex + 1))
                       else bigIntToHex (emptySubtreeHashes t ! level))
                 else (if currentIndex - 1 < length levelNodes
                       then bigIntToHex (levelNodes ! (currentIndex - 1))
                       else bigIntToHex (emptySubtreeHashes t ! level)))
      in (fst st @ [sib], currentIndex div 2))"

definition getSiblings :: "IndexedMerkleTree \<Rightarrow> nat \<Rightarrow> string list" where
  "getSiblings t index = fst (fold (siblingStep t) [0..<height t] ([], index))"

definition pathIndexStep :: "nat \<Rightarrow> nat list \<times> nat \<Rightarrow> nat list \<times> nat" where
  \<comment> \<open>the state is \<open>(indices, currentIndex)\<close>\<close>
  "pathIndexStep level st = (fst st @ [snd st mod 2], snd st div 2)"

definition getPathIndices :: "IndexedMerkleTree \<Rightarrow> nat \<Rightarrow> nat list" where
  "getPathIndices t index = fst (fold pathIndexStep [0..<height t] ([], index))"

definition getProofByIndex ::
  "(nat \<Rightarrow> nat \<Rightarrow> nat \<Rightarrow> nat) \<Rightarrow> IndexedMerkleTree \<Rightarrow> nat \<Rightarrow> string \<Rightarrow> MerkleProof" where
  "getProofByIndex P3 t index lf =
     (let leafData = leaves t ! index
      in \<lparr> leaf = lf, root = getRoot P3 t, siblings = getSiblings t index,
           pathIndices = getPathIndices t index, leafIndex = index,
           lowNullifier = Some (bigIntToHex (leafValue leafData)),
           lowNullifierNextValue = Some (bigIntToHex (nextValue leafData)),
           lowNullifierNextIdx = Some (nextIdx leafData) \<rparr>)"

definition getMembershipProof ::
  "(nat \<Rightarrow> nat \<Rightarrow> nat \<Rightarrow> nat) \<Rightarrow> IndexedMerkleTree \<Rightarrow> string \<Rightarrow> MerkleProof option" where
  "getMembershipProof P3 t nf =
     (case nullifierIndex t nf of
        None \<Rightarrow> None
      | Some index \<Rightarrow> Some (getProofByIndex P3 t index nf))"

text \<open>
  \<open>verifyProof\<close>: the loop runs over \<open>proof.siblings\<close>; a path index that is missing
  (\<open>undefined\<close>) or not 0 takes the right-child branch. Each \<open>hexToBigInt\<close> may throw.
\<close>

fun foldPath ::
  "(nat \<Rightarrow> nat \<Rightarrow> nat) \<Rightarrow> nat \<Rightarrow> string list \<Rightarrow> nat list \<Rightarrow> nat option" where
  "foldPath P2 currentHash [] idxs = Some currentHash"
| "foldPath P2 currentHash (s # sibs) idxs =
     (case hexToBigInt s of
        None \<Rightarrow> None
      | Some sibling \<Rightarrow>
          (if (case idxs of [] \<Rightarrow> False | pathIndex # _ \<Rightarrow> pathIndex = 0)
           then foldPath P2 (P2 currentHash sibling) sibs (tl idxs)
           else foldPath P2 (P2 sibling currentHash) sibs (tl idxs)))"

definition verifyProof :: "(nat \<Rightarrow> nat \<Rightarrow> nat) \<Rightarrow> string \<Rightarrow> MerkleProof \<Rightarrow> js_error + bool" where
  "verifyProof P2 lf prf =
     (case hexToBigInt lf of
        None \<Rightarrow> Inl SyntaxError
      | Some start \<Rightarrow>
         (case foldPath P2 start (siblings prf) (pathIndices prf) of
            None \<Rightarrow> Inl SyntaxError
          | Some currentHash \<Rightarrow>
             (case hexToBigInt (root prf) of
                None \<Rightarrow> Inl SyntaxError
              | Some expectedRoot \<Rightarrow> Inr (currentHash = expectedRoot))))"

text \<open>
  The sorted-linked-list property of the specification, as a check on a leaf list: every
  leaf points inside the list, at a leaf with a greater value or with value 0.
\<close>

definition sortedLinked :: "IndexedLeaf list \<Rightarrow> bool" where
  "sortedLinked ls =
     list_all (\<lambda>l. nextIdx l < length ls \<and>
                   (leafValue (ls ! nextIdx l) > leafValue l \<or> leafValue (ls ! nextIdx l) = 0)) ls"

text \<open>
  The invariant that insertion maintains: the head leaf has value 0, values are pairwise
  distinct, and each leaf's \<open>nextValue\<close> is the value of the leaf it points to, which
  is the least value above its own (0 when there is none).
\<close>

definition linkedInv :: "IndexedLeaf list \<Rightarrow> bool" where
  "linkedInv ls =
     (ls \<noteq> [] \<and> leafValue (ls ! 0) = 0 \<and> distinct (map leafValue ls) \<and>
      (\<forall>i<length ls.
         nextIdx (ls ! i) < length ls \<and>
         leafValue (ls ! nextIdx (ls ! i)) = nextValue (ls ! i) \<and>
         (if nextValue (ls ! i) = 0
          then \<forall>j<length ls. leafValue (ls ! j) \<le> leafValue (ls ! i)
          else leafValue (ls ! i) < nextValue (ls ! i) \<and>
               (\<forall>j<length ls. leafValue (ls ! j) \<le> leafValue (ls ! i) \<or>
                                nextValue (ls ! i) \<le> leafValue (ls ! j)))))"

definition keysInv :: "IndexedMerkleTree \<Rightarrow> bool" where
  \<comment> \<open>every key of \<open>nullifierIndex\<close> parses to the value of some leaf\<close>
  "keysInv t = (\<forall>k i. nullifierIndex t k = Some i \<longrightarrow>
                  (\<exists>v \<in> set (map leafValue (leaves t)). hexToBigInt k = Some v))"

definition treeInv :: "IndexedMerkleTree \<Rightarrow> bool" where
  "treeInv t = (linkedInv (leaves t) \<and> keysInv t)"

text \<open>
  Stand-in hash functions, used only to run the model on concrete inputs.
\<close>

definition demoP2 :: "nat \<Rightarrow> nat \<Rightarrow> nat" where
  "demoP2 a b = (3 * a + 5 * b + 1) mod 1000003"

definition demoP3 :: "nat \<Rightarrow> nat \<Rightarrow> nat \<Rightarrow> nat" where
  "demoP3 a b c = (7 * a + 11 * b + 13 * c + 2) mod 1000003"

definition demoTree :: IndexedMerkleTree where
  "demoTree = initialize demoP2 demoP3 (newIndexedMerkleTree TREE_HEIGHT)"

section \<open>Nullifier routes (registry-service)\<close>

record NullifierRecord =
  recNullifier :: string
  recDomain :: string
  recPseudonym :: string
  recTimestamp :: int
  recTreeIndex :: nat

record RegisterNullifierBody =
  bodyNullifier :: "string option"
  bodyDomain :: "string option"
  bodyPseudonym :: "string option"
  bodyTimestamp :: "int option"

record Registry =
  merkleTree :: IndexedMerkleTree
  nullifierRecords :: "string \<rightharpoonup> NullifierRecord"

datatype register_reply =
    Status400
  | Status409
  | Status500 js_error
  | Success nat string

definition falsy :: "string option \<Rightarrow> bool" where
  \<comment> \<open>\<open>!s\<close> for a string field that may be absent\<close>
  "falsy s = (case s of None \<Rightarrow> True | Some x \<Rightarrow> x = [])"

text \<open>
  \<open>POST /nullifiers/register\<close>; \<open>now\<close> is the reading of \<open>Date.now()\<close>. An exception
  of \<open>addLeaf\<close> escapes the handler and becomes the framework's status 500.
\<close>

definition registerRoute ::
  "(nat \<Rightarrow> nat \<Rightarrow> nat) \<Rightarrow> (nat \<Rightarrow> nat \<Rightarrow> nat \<Rightarrow> nat) \<Rightarrow> int \<Rightarrow> Registry \<Rightarrow>
   RegisterNullifierBody \<Rightarrow> Registry \<times> register_reply" where
  "registerRoute P2 P3 now reg body =
     (if falsy (bodyNullifier body) \<or> falsy (bodyDomain body) \<or> falsy (bodyPseudonym body)
      then (reg, Status400)
      else
        let nf = the (bodyNullifier body) in
        if hasNullifier (merkleTree reg) nf then (reg, Status409)
        else case addLeaf P2 P3 (merkleTree reg) nf of
          Inl e \<Rightarrow> (reg, Status500 e)
        | Inr (t', treeIndex) \<Rightarrow>
            let nfRecord = \<lparr> recNullifier = nf, recDomain = the (bodyDomain body),
                           recPseudonym = the (bodyPseudonym body),
                           recTimestamp = (case bodyTimestamp body of
                                             None \<Rightarrow> now
                                           | Some ts \<Rightarrow> if ts = 0 then now else ts),
                           recTreeIndex = treeIndex \<rparr>
            in (\<lparr> merkleTree = t', nullifierRecords = (nullifierRecords reg)(nf \<mapsto> nfRecord) \<rparr>,
                Success treeIndex (getRoot P3 t')))"

definition demoEmptyHashes :: "nat list" where
  "demoEmptyHashes = [2, 17, 137, 1097, 8777, 70217, 561737, 493885, 951072,
             608556, 868437, 947479, 579812, 638485, 107866, 862929, 903415,
             227300, 818398, 547167, 377325]"

text \<open>The demonstration tree after \<open>addLeaf("05")\<close>, and the membership proof it issues.\<close>

definition demoTree1 :: IndexedMerkleTree where
  "demoTree1 = (case addLeaf demoP2 demoP3 demoTree ''05'' of Inr (t, idx) \<Rightarrow> t)"

definition demoMembershipProof :: MerkleProof where
  "demoMembershipProof =
     \<lparr> leaf = ''05'',
       root = ''0000000000000000000000000000000000000000000000000000000000025116'',
       siblings =
        [''0000000000000000000000000000000000000000000000000000000000000046'',
         ''0000000000000000000000000000000000000000000000000000000000000011'',
         ''0000000000000000000000000000000000000000000000000000000000000089'',
         ''0000000000000000000000000000000000000000000000000000000000000449'',
         ''0000000000000000000000000000000000000000000000000000000000002249'',
         ''0000000000000000000000000000000000000000000000000000000000011249'',
         ''0000000000000000000000000000000000000000000000000000000000089249'',
         ''000000000000000000000000000000000000000000000000000000000007893d'',
         ''00000000000000000000000000000000000000000000000000000000000e8320'',
         ''000000000000000000000000000000000000000000000000000000000009492c'',
         ''00000000000000000000000000000000000000000000000000000000000d4055'',
         ''00000000000000000000000000000000000000000000000000000000000e7517'',
         ''000000000000000000000000000000000000000000000000000000000008d8e4'',
         ''000000000000000000000000000000000000000000000000000000000009be15'',
         ''000000000000000000000000000000000000000000000000000000000001a55a'',
         ''00000000000000000000000000000000000000000000000000000000000d2ad1'',
         ''00000000000000000000000000000000000000000000000000000000000dc8f7'',
         ''00000000000000000000000000000000000000000000000000000000000377e4'',
         ''00000000000000000000000000000000000000000000000000000000000c7cde'',
         ''000000000000000000000000000000000000000000000000000000000008595f''],
       pathIndices = [1, 0, 0, 0, 0, 0, 0, 0, 0, 0, 0, 0, 0, 0, 0, 0, 0, 0, 0, 0],
       leafIndex = 1,
       lowNullifier =
         Some ''0000000000000000000000000000000000000000000000000000000000000005'',
       lowNullifierNextValue =
         Some ''0000000000000000000000000000000000000000000000000000000000000000'',
       lowNullifierNextIdx = Some 0 \<rparr>"


section \<open>Bytes, hexadecimal strings and field operations (wallet-sdk, crypto-utils)\<close>

text \<open>
  A \<open>Uint8Array\<close> or \<open>Buffer\<close> is a list of bytes. Where the source converts a string
  with \<open>Buffer.from(s, 'utf-8')\<close> the model string is taken as its list of UTF-8 bytes.
  \<open>Buffer.from(hex, 'hex')\<close> decodes pairs of hexadecimal digits and stops silently at
  the first pair that is not one (or at a single trailing character).
\<close>

type_synonym byte = "8 word"

definition bytesOfString :: "string \<Rightarrow> byte list" where
  "bytesOfString s = map (\<lambda>c. of_nat (of_char c)) s"

definition bytesToHex :: "byte list \<Rightarrow> string" where
  "bytesToHex bs = concat (map (\<lambda>b. [digitChar (unat b div 16), digitChar (unat b mod 16)]) bs)"

fun hexToBytes :: "string \<Rightarrow> byte list" where
  "hexToBytes (a # b # rest) =
     (if isHexDigit a \<and> isHexDigit b
      then of_nat (16 * hexDigitVal a + hexDigitVal b) # hexToBytes rest
      else [])"
| "hexToBytes _ = []"

definition FIELD_MODULUS :: int where
  \<comment> \<open>\<open>0x73eda753299d7d483339d80809a1d80553bda402fffe5bfeffffffff00000001\<close>\<close>
  "FIELD_MODULUS = 52435875175126190479447740508185965837690552500527637822603658699938581184513"

definition jsRem :: "int \<Rightarrow> int \<Rightarrow> int" where
  \<comment> \<open>the \<open>%\<close> of bigints, for a positive divisor: the sign follows the dividend\<close>
  "jsRem a b = (if a \<ge> 0 then a mod b else - ((- a) mod b))"

definition bigIntToString16 :: "int \<Rightarrow> string" where
  "bigIntToString16 s =
     (if s \<ge> 0 then toStringBase 16 (nat s) else CHR ''-'' # toStringBase 16 (nat (- s)))"

definition scalarToBytes :: "int \<Rightarrow> byte list" where
  "scalarToBytes scalar = hexToBytes (padStart 64 CHR ''0'' (bigIntToString16 scalar))"

definition bytesToScalar :: "byte list \<Rightarrow> int option" where
  \<comment> \<open>\<open>BigInt('0x' + hex) % FIELD_MODULUS\<close>; the \<open>BigInt\<close> of an empty buffer throws\<close>
  "bytesToScalar bs =
     map_option (\<lambda>n. jsRem (int n) FIELD_MODULUS) (bigIntOfHex (bytesToHex bs))"

definition randomScalar :: "byte list \<Rightarrow> int option" where
  \<comment> \<open>\<open>FieldOperations.randomScalar\<close>, as a function of the 32 bytes it draws\<close>
  "randomScalar bs =
     map_option (\<lambda>n. jsRem (int n) FIELD_MODULUS) (bigIntOfHex (bytesToHex bs))"

definition addMod :: "int \<Rightarrow> int \<Rightarrow> int" where
  "addMod a b = jsRem (a + b) FIELD_MODULUS"

definition mulMod :: "int \<Rightarrow> int \<Rightarrow> int" where
  "mulMod a b = jsRem (a * b) FIELD_MODULUS"

definition constantTimeEqual :: "byte list \<Rightarrow> byte list \<Rightarrow> bool" where
  "constantTimeEqual a b =
     (if length a \<noteq> length b then False
      else fold (\<lambda>(x, y) result. or result (xor x y)) (zip a b) 0 = 0)"

section \<open>Poseidon hash (wallet-sdk)\<close>

text \<open>
  \<open>this.poseidon(inputs.map(F.e))\<close> followed by \<open>F.toObject\<close> is the parameter \<open>P\<close>, a
  function of the list of inputs; \<open>None\<close> stands for an exception of circomlibjs (the
  library accepts between 1 and 16 inputs). The class is taken as initialised.
\<close>

definition hash2 :: "(int list \<Rightarrow> int option) \<Rightarrow> int \<Rightarrow> int \<Rightarrow> int option" where
  "hash2 P a b = P [a, b]"

definition hash3 :: "(int list \<Rightarrow> int option) \<Rightarrow> int \<Rightarrow> int \<Rightarrow> int \<Rightarrow> int option" where
  "hash3 P a b c = P [a, b, c]"

definition hashMany :: "(int list \<Rightarrow> int option) \<Rightarrow> int list \<Rightarrow> int option" where
  "hashMany P inputs = (if length inputs = 0 then Some 0 else P inputs)"

function chunks31 :: "byte list \<Rightarrow> byte list list" where
  \<comment> \<open>the slices \<open>data.slice(i, min(i + 31, data.length))\<close> for \<open>i = 0, 31, 62, ...\<close>\<close>
  "chunks31 data = (if data = [] then [] else take 31 data # chunks31 (drop 31 data))"
  by pat_completeness auto
termination
  by (relation "measure length") auto

declare chunks31.simps [simp del]

definition padded32 :: "byte list \<Rightarrow> byte list" where
  \<comment> \<open>\<open>new Uint8Array(32)\<close> with the chunk written at offset 0\<close>
  "padded32 chunk = chunk @ replicate (32 - length chunk) 0"

definition hashBytes :: "(int list \<Rightarrow> int option) \<Rightarrow> byte list \<Rightarrow> int option" where
  "hashBytes P data =
     (case those (map (\<lambda>chunk. bytesToScalar (padded32 chunk)) (chunks31 data)) of
        None \<Rightarrow> None
      | Some chunks \<Rightarrow> hashMany P chunks)"

definition hashString :: "(int list \<Rightarrow> int option) \<Rightarrow> string \<Rightarrow> int option" where
  "hashString P str = hashBytes P (bytesOfString str)"

definition toHex :: "int \<Rightarrow> string" where
  "toHex v = bytesToHex (scalarToBytes v)"

definition fromHex :: "string \<Rightarrow> int option" where
  "fromHex hex = bytesToScalar (hexToBytes hex)"

text \<open>A stand-in for Poseidon, used only to run the model on concrete inputs.\<close>

definition demoPoseidon :: "int list \<Rightarrow> int option" where
  "demoPoseidon inputs = Some (2 ^ 252 + sum_list inputs mod 1000)"

section \<open>Challenge manager (verifier-service)\<close>

definition CHALLENGE_TTL_MS :: nat where
  "CHALLENGE_TTL_MS = 5 * 60 * 1000"

definition CIRCUIT_ID :: string where
  "CIRCUIT_ID = ''halp-auth-v1''"

record AuthChallenge =
  challengeId :: string
  challengeValue :: string
  challengeDomain :: string
  challengeRegistryRoot :: string
  circuitId :: string
  createdAt :: nat
  expiresAt :: nat

definition generateChallengeId :: "nat \<Rightarrow> byte list \<Rightarrow> string" where
  \<comment> \<open>\<open>now\<close> is the reading of \<open>Date.now()\<close>, \<open>rnd\<close> the result of \<open>randomBytes(8)\<close>\<close>
  "generateChallengeId now rnd = ''ch_'' @ toStringBase 36 now @ ''_'' @ bytesToHex rnd"

text \<open>
  \<open>getRegistryRoot\<close>: the registry's \<open>root\<close> when the response is OK (\<open>None\<close> if the
  body has no such field), else the hex of the SHA-256 of a fixed label. SHA-256 is the
  parameter \<open>sha256\<close>.
\<close>

definition getRegistryRoot ::
  "(byte list \<Rightarrow> byte list) \<Rightarrow> string option fetch_outcome \<Rightarrow> string option" where
  "getRegistryRoot sha256 response =
     (case response of
        Response True body \<Rightarrow> body
      | _ \<Rightarrow> Some (bytesToHex (sha256 (bytesOfString ''HALP_EMPTY_TREE_ROOT_V1''))))"

text \<open>
  \<open>generateChallenge\<close>. Its inputs beside the request's domain are what it draws and
  reads: the clock at the two \<open>Date.now()\<close> calls (first in \<open>generateChallengeId\<close>, then
  for \<open>createdAt\<close>), the 8 and 32 random bytes, and the registry's answer. It returns
  the updated challenge store and the challenge.
\<close>

definition generateChallenge ::
  "(byte list \<Rightarrow> byte list) \<Rightarrow> nat \<Rightarrow> byte list \<Rightarrow> byte list \<Rightarrow> string option fetch_outcome \<Rightarrow>
   nat \<Rightarrow> (string \<rightharpoonup> AuthChallenge) \<Rightarrow> string \<Rightarrow>
   js_error + ((string \<rightharpoonup> AuthChallenge) \<times> AuthChallenge)" where
  "generateChallenge sha256 nowId idBytes challengeBytes rootResponse nowCreated store domainName =
     (let cid = generateChallengeId nowId idBytes in
      case bigIntOfHex (bytesToHex challengeBytes) of
        None \<Rightarrow> Inl SyntaxError
      | Some n \<Rightarrow>
         let challengeBigInt = jsRem (int n) FIELD_MODULUS;
             chal = padStart 64 CHR ''0'' (bigIntToString16 challengeBigInt)
         in case getRegistryRoot sha256 rootResponse of
              None \<Rightarrow> Inl TypeError
            | Some rr \<Rightarrow>
               let authChallenge =
                     \<lparr> challengeId = cid, challengeValue = chal, challengeDomain = domainName,
                       challengeRegistryRoot = rr, circuitId = CIRCUIT_ID,
                       createdAt = nowCreated, expiresAt = nowCreated + CHALLENGE_TTL_MS \<rparr>
               in Inr (store(cid \<mapsto> authChallenge), authChallenge))"

section \<open>G1 operations and hashing to a challenge (wallet-sdk, crypto-utils)\<close>

text \<open>
  The curve library (@noble/curves) is outside the repository. Its group G1 is cyclic and
  its order is the prime \<open>FIELD_MODULUS\<close>, so a point is modelled by the multiple of the
  base point that it is, an integer read modulo the order. As in the library,
  \<open>point.multiply(s)\<close> throws unless \<open>1 \<le> s < order\<close> (\<open>None\<close>). The library's
  encoding of a point (48 bytes, the abscissa with three flag bits) cannot be computed
  from this representation; \<open>G1_serialize\<close> and \<open>G1_deserialize\<close> stand for it by an
  encoding of their own, the 48-byte big-endian number of the representative in
  \<open>[0, order)\<close>. They agree with the library in what the commitment protocol relies on:
  encodings have 48 bytes, equal points have equal encodings, and decoding an encoding
  gives the point back. They do not agree with it on which foreign byte strings decode,
  so \<open>verifyParameters\<close>, which decodes strings read from a file, takes the decoder as a
  parameter instead.
\<close>

datatype G1Point = BaseTimes int

fun dlog :: "G1Point \<Rightarrow> int" where
  "dlog (BaseTimes x) = x"

definition G1_getGenerator :: G1Point where
  "G1_getGenerator = BaseTimes 1"

definition G1_multiply :: "G1Point \<Rightarrow> int \<Rightarrow> G1Point option" where
  "G1_multiply point scalar =
     (if 1 \<le> scalar \<and> scalar < FIELD_MODULUS
      then Some (BaseTimes ((dlog point * scalar) mod FIELD_MODULUS))
      else None)"

definition G1_add :: "G1Point \<Rightarrow> G1Point \<Rightarrow> G1Point" where
  "G1_add point1 point2 = BaseTimes ((dlog point1 + dlog point2) mod FIELD_MODULUS)"

definition G1_negate :: "G1Point \<Rightarrow> G1Point" where
  "G1_negate point = BaseTimes ((- dlog point) mod FIELD_MODULUS)"

fun bytesBE :: "nat \<Rightarrow> nat \<Rightarrow> byte list" where
  \<comment> \<open>the big-endian encoding of a number on a given count of bytes\<close>
  "bytesBE 0 x = []"
| "bytesBE (Suc n) x = bytesBE n (x div 256) @ [of_nat (x mod 256)]"

definition valueBE :: "byte list \<Rightarrow> nat" where
  "valueBE bs = foldl (\<lambda>acc b. 256 * acc + unat b) 0 bs"

definition G1_serialize :: "G1Point \<Rightarrow> byte list" where
  "G1_serialize point = bytesBE 48 (nat (dlog point mod FIELD_MODULUS))"

definition G1_deserialize :: "byte list \<Rightarrow> G1Point option" where
  "G1_deserialize bs =
     (if length bs = 48 \<and> int (valueBE bs) < FIELD_MODULUS
      then Some (BaseTimes (int (valueBE bs)))
      else None)"

text \<open>SHA-256 (@noble/hashes) is the parameter \<open>sha256\<close>.\<close>

definition computeChallenge ::
  "(byte list \<Rightarrow> byte list) \<Rightarrow> byte list \<Rightarrow> byte list \<Rightarrow> byte list \<Rightarrow> byte list \<Rightarrow> int option" where
  "computeChallenge sha256 commitment T context nonceBytes =
     bytesToScalar (sha256 (bytesOfString ''BBS_COMMITMENT_CHALLENGE_V1'' @ commitment @ T @
                            context @ nonceBytes))"

section \<open>Public parameters (wallet-sdk)\<close>

record PublicParameters =
  version :: nat
  maxAttributes :: nat
  generatorG :: string
  attributeGenerators :: "string list"
  blindingGenerator :: string
  generatedAt :: nat

text \<open>
  \<open>verifyParameters\<close>. \<open>G1Operations.deserialize\<close>, the library's \<open>G1Point.fromHex\<close>,
  is the parameter \<open>deserialize\<close>, \<open>None\<close> when it throws; any exception is caught and
  makes the result false.
\<close>

definition verifyParameters :: "(byte list \<Rightarrow> 'pt option) \<Rightarrow> PublicParameters \<Rightarrow> bool" where
  "verifyParameters deserialize params =
     (case deserialize (hexToBytes (generatorG params)) of
        None \<Rightarrow> False
      | Some G \<Rightarrow>
         if length (attributeGenerators params) \<noteq> maxAttributes params then False
         else if list_ex (\<lambda>h. deserialize (hexToBytes h) = None) (attributeGenerators params)
         then False
         else (case deserialize (hexToBytes (blindingGenerator params)) of
                 None \<Rightarrow> False
               | Some Hr \<Rightarrow> True))"

text \<open>The parsed generators held by \<open>PublicParametersManager\<close> once parameters are loaded.\<close>

record Generators =
  genG :: G1Point
  genAttributes :: "G1Point list"
  genBlinding :: G1Point

section \<open>Commitment protocol (wallet-sdk)\<close>

record ZeroKnowledgeProof =
  zkCommitment :: "byte list"
  zkT :: "byte list"
  zkChallenge :: "byte list"
  zkResponses :: "int list"
  zkNonce :: "byte list"

text \<open>
  The loop \<open>for i < xs.length: P = add(P, multiply(attributeGenerators[i], xs[i]))\<close>
  shared by the three operations; a missing generator is \<open>undefined\<close>, whose
  \<open>multiply\<close> throws.
\<close>

fun addMultiples :: "G1Point \<Rightarrow> G1Point list \<Rightarrow> int list \<Rightarrow> G1Point option" where
  "addMultiples P Hs [] = Some P"
| "addMultiples P [] (x # xs) = None"
| "addMultiples P (H # Hs) (x # xs) =
     (case G1_multiply H x of
        None \<Rightarrow> None
      | Some Q \<Rightarrow> addMultiples (G1_add P Q) Hs xs)"

text \<open>
  \<open>createCommitment\<close>: \<open>blindingFactor || randomScalar()\<close> draws a scalar when the
  argument is absent or 0; \<open>rnd\<close> is the 32 bytes that draw would read. \<open>None\<close> is a
  thrown exception.
\<close>

definition createCommitment ::
  "Generators \<Rightarrow> nat \<Rightarrow> int \<Rightarrow> int list \<Rightarrow> int option \<Rightarrow> byte list \<Rightarrow>
   (byte list \<times> int) option" where
  "createCommitment generators maxAttrs masterSecret attributes blindingFactor rnd =
     (if length attributes > maxAttrs then None
      else
        case (case blindingFactor of
                None \<Rightarrow> randomScalar rnd
              | Some b \<Rightarrow> if b \<noteq> 0 then Some b else randomScalar rnd) of
          None \<Rightarrow> None
        | Some r \<Rightarrow>
           (case G1_multiply (genG generators) masterSecret of
              None \<Rightarrow> None
            | Some C0 \<Rightarrow>
               (case addMultiples C0 (genAttributes generators) attributes of
                  None \<Rightarrow> None
                | Some C1 \<Rightarrow>
                   (case G1_multiply (genBlinding generators) r of
                      None \<Rightarrow> None
                    | Some blindingCommit \<Rightarrow>
                        Some (G1_serialize (G1_add C1 blindingCommit), r)))))"

text \<open>
  \<open>generateProof\<close>: \<open>rndMs\<close>, \<open>rndAttr i\<close> and \<open>rndBlind\<close> are the bytes read by the
  draws of \<open>r_ms\<close>, \<open>r_attrs[i]\<close> and \<open>r_blind\<close>; \<open>nonceBytes\<close> is the result of
  \<open>randomBytes(32)\<close>.
\<close>

definition generateProof ::
  "Generators \<Rightarrow> (byte list \<Rightarrow> byte list) \<Rightarrow> int \<Rightarrow> int list \<Rightarrow> int \<Rightarrow> byte list \<Rightarrow> byte list \<Rightarrow>
   byte list \<Rightarrow> (nat \<Rightarrow> byte list) \<Rightarrow> byte list \<Rightarrow> byte list \<Rightarrow> ZeroKnowledgeProof option" where
  "generateProof generators sha256 masterSecret attributes blindingFactor commitmentBytes
     context rndMs rndAttr rndBlind nonceBytes =
     (case randomScalar rndMs of None \<Rightarrow> None | Some r_ms \<Rightarrow>
      case those (map (\<lambda>i. randomScalar (rndAttr i)) [0..<length attributes]) of
        None \<Rightarrow> None | Some r_attrs \<Rightarrow>
      case randomScalar rndBlind of None \<Rightarrow> None | Some r_blind \<Rightarrow>
      case G1_multiply (genG generators) r_ms of None \<Rightarrow> None | Some T0 \<Rightarrow>
      case addMultiples T0 (genAttributes generators) r_attrs of None \<Rightarrow> None | Some T1 \<Rightarrow>
      case G1_multiply (genBlinding generators) r_blind of None \<Rightarrow> None | Some blindingT \<Rightarrow>
      let T_bytes = G1_serialize (G1_add T1 blindingT) in
      case computeChallenge sha256 commitmentBytes T_bytes context nonceBytes of
        None \<Rightarrow> None | Some c \<Rightarrow>
      let challengeBytes = scalarToBytes c;
          s_ms = addMod r_ms (mulMod c masterSecret);
          s_attrs = map (\<lambda>(attr, r_attr). addMod r_attr (mulMod c attr)) (zip attributes r_attrs);
          s_blind = addMod r_blind (mulMod c blindingFactor)
      in Some \<lparr> zkCommitment = commitmentBytes, zkT = T_bytes, zkChallenge = challengeBytes,
                 zkResponses = [s_ms] @ s_attrs @ [s_blind], zkNonce = nonceBytes \<rparr>)"

text \<open>
  \<open>verifyProof\<close> of the commitment protocol (the name \<open>verifyProof\<close> is taken by the
  Merkle tree). Every exception inside is caught and makes the result false.
\<close>

definition recomputeChallenge ::
  "Generators \<Rightarrow> (byte list \<Rightarrow> byte list) \<Rightarrow> ZeroKnowledgeProof \<Rightarrow> byte list \<Rightarrow> nat \<Rightarrow>
   byte list option" where
  \<comment> \<open>the body of the \<open>try\<close> up to \<open>challenge_prime_bytes\<close>\<close>
  "recomputeChallenge generators sha256 prf context numAttributes =
     (let s_ms = zkResponses prf ! 0;
          s_attrs = take numAttributes (drop 1 (zkResponses prf));
          s_blind = zkResponses prf ! (length (zkResponses prf) - 1)
      in
      case bytesToScalar (zkChallenge prf) of None \<Rightarrow> None | Some c \<Rightarrow>
      case G1_multiply (genG generators) s_ms of None \<Rightarrow> None | Some T0 \<Rightarrow>
      case addMultiples T0 (genAttributes generators) s_attrs of None \<Rightarrow> None | Some T1 \<Rightarrow>
      case G1_multiply (genBlinding generators) s_blind of None \<Rightarrow> None | Some blindingT \<Rightarrow>
      case G1_deserialize (zkCommitment prf) of None \<Rightarrow> None | Some C \<Rightarrow>
      case G1_multiply C c of None \<Rightarrow> None | Some C_c \<Rightarrow>
      let T_prime = G1_add (G1_add T1 blindingT) (G1_negate C_c) in
      case computeChallenge sha256 (zkCommitment prf) (G1_serialize T_prime) context (zkNonce prf) of
        None \<Rightarrow> None
      | Some challenge_prime \<Rightarrow> Some (scalarToBytes challenge_prime))"

definition CommitmentProtocol_verifyProof ::
  "Generators \<Rightarrow> (byte list \<Rightarrow> byte list) \<Rightarrow> ZeroKnowledgeProof \<Rightarrow> byte list \<Rightarrow> nat \<Rightarrow> bool" where
  "CommitmentProtocol_verifyProof generators sha256 prf context numAttributes =
     (if length (zkResponses prf) \<noteq> 1 + numAttributes + 1 then False
      else case recomputeChallenge generators sha256 prf context numAttributes of
             None \<Rightarrow> False
           | Some challenge_prime_bytes \<Rightarrow>
               constantTimeEqual (zkChallenge prf) challenge_prime_bytes)"

text \<open>
  A decoder to run \<open>verifyParameters\<close> on a concrete parameter set. It checks the format
  of a compressed point as the library does (48 bytes, compression flag set, infinity
  flag clear, abscissa below the prime of the base field) and returns the abscissa and the
  sign flag; it does not check that the abscissa is that of a point of the group. On the
  encoding of the base point of BLS12-381 it accepts, as the library does.
\<close>

definition BLS_BASE_FIELD_PRIME :: nat where
  \<comment> \<open>\<open>0x1a0111ea397fe69a4b1ba7b6434bacd764774b84f38512bf6730d2a0f6b0f6241eabfffeb153ffffb9feffffffffaaab\<close>\<close>
  "BLS_BASE_FIELD_PRIME =
     4002409555221667393417789825735904156556882819939007885332058136124031650490837864442687629129015664037894272559787"

definition compressedFormat :: "byte list \<Rightarrow> (nat \<times> bool) option" where
  "compressedFormat bs =
     (if length bs = 48 \<and> 128 \<le> unat (hd bs) \<and> (unat (hd bs) div 64) mod 2 = 0 \<and>
         valueBE bs mod 2 ^ 381 < BLS_BASE_FIELD_PRIME
      then Some (valueBE bs mod 2 ^ 381, (unat (hd bs) div 32) mod 2 = 1)
      else None)"

text \<open>
  The compressed encoding of the base point of BLS12-381, which \<open>generateParameters\<close>
  stores as \<open>generatorG\<close>, and a parameter set all of whose generators carry it.
\<close>

definition basePointHex :: string where
  "basePointHex =
     ''97f1d3a73197d7942695638c4fa9ac0fc3688c4f9774b905a14e3a3f171bac586c55e83ff97a1aeffb3af00adb22c6bb''"

definition basePointParameters :: PublicParameters where
  "basePointParameters =
     \<lparr> version = 1, maxAttributes = 2, generatorG = basePointHex,
       attributeGenerators = [basePointHex, basePointHex],
       blindingGenerator = basePointHex, generatedAt = 0 \<rparr>"

text \<open>
  The value that a chunk of at most 32 bytes encodes: the chunk is followed by zero bytes up
  to 32, read as a big-endian number and reduced modulo the field modulus.
\<close>

definition chunkValue :: "byte list \<Rightarrow> int" where
  "chunkValue chunk =
     int (valueBE (chunk @ replicate (32 - length chunk) 0)) mod FIELD_MODULUS"

text \<open>Auxiliary notions for the proofs: lower-case hexadecimal digits, and the weighted sum
  of discrete logarithms that a run of \<open>addMultiples\<close> adds to its starting point.\<close>

definition lowerHex :: "char \<Rightarrow> bool" where
  "lowerHex c = (\<exists>d<16. c = digitChar d)"

fun dot :: "G1Point list \<Rightarrow> int list \<Rightarrow> int" where
  "dot (H # Hs) (x # xs) = dlog H * x + dot Hs xs"
| "dot Hs xs = 0"

text \<open>
  A run of the commitment protocol on small numbers: one attribute, every drawn scalar
  equal to 1, and a byte checksum standing in for SHA-256.
\<close>

definition toySha256 :: "byte list \<Rightarrow> byte list" where
  "toySha256 bs = replicate 31 0 @ [sum_list bs]"

definition schnorrGenerators :: Generators where
  "schnorrGenerators =
     \<lparr> genG = BaseTimes 1, genAttributes = [BaseTimes 2], genBlinding = BaseTimes 3 \<rparr>"

definition drawOne :: "byte list" where
  "drawOne = replicate 31 0 @ [1]"

definition schnorrNonce :: "byte list" where
  "schnorrNonce = replicate 31 0 @ [250]"

definition schnorrCommitment :: "byte list" where
  "schnorrCommitment = replicate 47 0 @ [6]"

definition schnorrProofZero :: ZeroKnowledgeProof where
  "schnorrProofZero =
     \<lparr> zkCommitment = schnorrCommitment, zkT = replicate 47 0 @ [6],
       zkChallenge = replicate 31 0 @ [1], zkResponses = [2, 2, 1], zkNonce = schnorrNonce \<rparr>"

definition schnorrProofOne :: ZeroKnowledgeProof where
  "schnorrProofOne =
     \<lparr> zkCommitment = schnorrCommitment, zkT = replicate 47 0 @ [6],
       zkChallenge = replicate 31 0 @ [1], zkResponses = [2, 2, 2], zkNonce = schnorrNonce \<rparr>"

section \<open>Hybrid proof generator (wallet-sdk)\<close>

definition MERKLE_LEVELS :: nat where
  "MERKLE_LEVELS = 20"

text \<open>
  The stored credential, without its \<open>credential\<close> document, which only the BBS+ proof
  builder reads.
\<close>

record StoredCredential =
  storedId :: string
  storedBbsSignature :: string
  storedCommitmentHash :: string
  storedBlindingFactor :: string
  storedIssuerPublicKey :: string

record NonMembershipProof =
  nmSiblings :: "string list"
  nmPathIndices :: "nat list"
  nmLeaf :: string
  nmRoot :: string
  nmLowNullifier :: "string option"
  nmLowNullifierNextValue :: "string option"
  nmLowNullifierNextIdx :: "nat option"

text \<open>The decoded body of the registry's answer to \<open>POST /merkle/proof\<close>.\<close>

record ProofResponse =
  respSuccess :: bool
  respProof :: "MerkleProof option"

text \<open>
  \<open>getNonMembershipProof\<close>: every failure inside the \<open>try\<close> (request failed, status not
  OK, \<open>success\<close> false, no \<open>proof\<close> in the body) ends in the placeholder proof.
\<close>

definition placeholderProof :: "string \<Rightarrow> NonMembershipProof" where
  "placeholderProof nullifierHex =
     \<lparr> nmSiblings = replicate MERKLE_LEVELS (replicate 64 CHR ''0''),
       nmPathIndices = replicate MERKLE_LEVELS 0,
       nmLeaf = nullifierHex,
       nmRoot = replicate 64 CHR ''0'',
       nmLowNullifier = Some (replicate 64 CHR ''0''),
       nmLowNullifierNextValue = Some (replicate 64 CHR ''0''),
       nmLowNullifierNextIdx = Some 0 \<rparr>"

definition getNonMembershipProof ::
  "ProofResponse fetch_outcome \<Rightarrow> string \<Rightarrow> NonMembershipProof" where
  "getNonMembershipProof response nullifierHex =
     (case response of
        Response True body \<Rightarrow>
          (if respSuccess body then
             (case respProof body of
                Some p \<Rightarrow>
                  \<lparr> nmSiblings = siblings p, nmPathIndices = pathIndices p, nmLeaf = leaf p,
                    nmRoot = root p, nmLowNullifier = lowNullifier p,
                    nmLowNullifierNextValue = lowNullifierNextValue p,
                    nmLowNullifierNextIdx = lowNullifierNextIdx p \<rparr>
              | None \<Rightarrow> placeholderProof nullifierHex)
           else placeholderProof nullifierHex)
      | _ \<Rightarrow> placeholderProof nullifierHex)"

record SnarkPrivateInputs =
  privMasterSecret :: int
  privSessionNonce :: int
  privDomainHash :: int
  privCredentialIdHash :: int
  privBlindingFactor :: int
  privLowNullifier :: int
  privLowNullifierNextValue :: int
  privLowNullifierNextIdx :: int
  privMerkleSiblings :: "int list"
  privMerklePathIndices :: "nat list"

record CircuitInputs =
  inPseudonym :: string
  inNullifier :: string
  inCommitmentHash :: string
  inRegistryRoot :: string
  inChallenge :: string
  inMasterSecret :: string
  inSessionNonce :: string
  inDomainHash :: string
  inCredentialIdHash :: string
  inBlindingFactor :: string
  inLowNullifier :: string
  inLowNullifierNextValue :: string
  inLowNullifierNextIdx :: string
  inMerkleSiblings :: "string list"
  inMerklePathIndices :: "nat list"

definition bigIntToString10 :: "int \<Rightarrow> string" where
  \<comment> \<open>\<open>v.toString()\<close> of a bigint\<close>
  "bigIntToString10 v =
     (if v \<ge> 0 then toStringBase 10 (nat v) else CHR ''-'' # toStringBase 10 (nat (- v)))"

text \<open>An exception of circomlibjs is rendered as the error \<open>Error ''poseidon''\<close>.\<close>

definition generateDemoSnarkProof ::
  "(int list \<Rightarrow> int option) \<Rightarrow> SnarkPublicInputs \<Rightarrow> js_error + SnarkProof" where
  "generateDemoSnarkProof P pub =
     (case fromHex (pseudonym pub) of None \<Rightarrow> Inl SyntaxError | Some a \<Rightarrow>
     (case fromHex (nullifier pub) of None \<Rightarrow> Inl SyntaxError | Some b \<Rightarrow>
     (case fromHex (challenge pub) of None \<Rightarrow> Inl SyntaxError | Some c \<Rightarrow>
     (case hash3 P a b c of None \<Rightarrow> Inl (Error ''poseidon'') | Some proofSeed \<Rightarrow>
      let proofHex = toHex proofSeed;
          h = take 64 proofHex
      in Inr \<lparr> pi_a = [h, h, ''1''],
               pi_b = [[h, h], [h, h], [''1'', ''0'']],
               pi_c = [h, h, ''1''],
               protocol = ''groth16'', curve = ''bn128'' \<rparr>))))"

text \<open>
  \<open>generateSnarkProof\<close>. \<open>snarkjs.groth16.fullProve\<close> is the parameter \<open>fullProve\<close>, from
  the circuit inputs to the three components of the proof, \<open>None\<close> when it throws;
  \<open>ready\<close> is the flag \<open>circuitReady\<close>. The local \<open>hexToDecimal\<close> is the function of the
  same text in the verifier.
\<close>

definition generateSnarkProof ::
  "(int list \<Rightarrow> int option) \<Rightarrow> bool \<Rightarrow>
   (CircuitInputs \<Rightarrow> (string list \<times> string list list \<times> string list) option) \<Rightarrow>
   SnarkPublicInputs \<Rightarrow> SnarkPrivateInputs \<Rightarrow> js_error + SnarkProof" where
  "generateSnarkProof P ready fullProve pub priv =
     (case hexToDecimal (pseudonym pub) of None \<Rightarrow> Inl SyntaxError | Some p \<Rightarrow>
     (case hexToDecimal (nullifier pub) of None \<Rightarrow> Inl SyntaxError | Some n \<Rightarrow>
     (case hexToDecimal (commitmentHash pub) of None \<Rightarrow> Inl SyntaxError | Some c \<Rightarrow>
     (case hexToDecimal (registryRoot pub) of None \<Rightarrow> Inl SyntaxError | Some r \<Rightarrow>
     (case hexToDecimal (challenge pub) of None \<Rightarrow> Inl SyntaxError | Some ch \<Rightarrow>
      let circuitInputs =
            \<lparr> inPseudonym = p, inNullifier = n, inCommitmentHash = c, inRegistryRoot = r,
              inChallenge = ch,
              inMasterSecret = bigIntToString10 (privMasterSecret priv),
              inSessionNonce = bigIntToString10 (privSessionNonce priv),
              inDomainHash = bigIntToString10 (privDomainHash priv),
              inCredentialIdHash = bigIntToString10 (privCredentialIdHash priv),
              inBlindingFactor = bigIntToString10 (privBlindingFactor priv),
              inLowNullifier = bigIntToString10 (privLowNullifier priv),
              inLowNullifierNextValue = bigIntToString10 (privLowNullifierNextValue priv),
              inLowNullifierNextIdx = bigIntToString10 (privLowNullifierNextIdx priv),
              inMerkleSiblings = map bigIntToString10 (privMerkleSiblings priv),
              inMerklePathIndices = privMerklePathIndices priv \<rparr>
      in if ready then
           (case fullProve circuitInputs of
              Some (a, b, c) \<Rightarrow>
                Inr \<lparr> pi_a = a, pi_b = b, pi_c = c, protocol = ''groth16'', curve = ''bn128'' \<rparr>
            | None \<Rightarrow> generateDemoSnarkProof P pub)
         else generateDemoSnarkProof P pub)))))"

definition bigIntOfOptionalHex :: "string option \<Rightarrow> int option" where
  \<comment> \<open>\<open>x ? BigInt('0x' + x) : BigInt(0)\<close>\<close>
  "bigIntOfOptionalHex x =
     (case x of
        None \<Rightarrow> Some 0
      | Some s \<Rightarrow> if s = [] then Some 0 else map_option int (bigIntOfHex s))"

text \<open>
  \<open>generateHybridProof\<close>. Beside the credential, the challenge and the indices to reveal,
  its inputs are what it reads from its environment: the 32 bytes \<open>rnd\<close> drawn by
  \<open>FieldOperations.randomScalar\<close>, the stored master secret (\<open>None\<close> when
  \<open>getMasterSecret\<close> throws), the registry's answer, and the clock. The BBS+ proof
  builder \<open>generateBBSSelectiveProof\<close>, which renders JSON and base64, is a parameter.
\<close>

definition generateHybridProof ::
  "(int list \<Rightarrow> int option) \<Rightarrow> bool \<Rightarrow>
   (CircuitInputs \<Rightarrow> (string list \<times> string list list \<times> string list) option) \<Rightarrow>
   (StoredCredential \<Rightarrow> int list \<Rightarrow> string \<Rightarrow> BBSSelectiveDisclosureProof) \<Rightarrow>
   byte list \<Rightarrow> int option \<Rightarrow> ProofResponse fetch_outcome \<Rightarrow> int \<Rightarrow>
   StoredCredential \<Rightarrow> AuthChallenge \<Rightarrow> int list \<Rightarrow> js_error + HybridAuthPackage" where
  "generateHybridProof P ready fullProve generateBBSSelectiveProof rnd storedSecret response now
     credential chal revealedAttributeIndices =
     (let domainName = challengeDomain chal in
     (case randomScalar rnd of None \<Rightarrow> Inl SyntaxError | Some sessionNonce \<Rightarrow>
     (case storedSecret of
        None \<Rightarrow> Inl (Error ''Master secret not found for this DID'')
      | Some ms \<Rightarrow>
     (case bigIntOfHex (storedBlindingFactor credential) of
        None \<Rightarrow> Inl SyntaxError
      | Some blindingFactor \<Rightarrow>
      let commitmentHashHex = storedCommitmentHash credential in
     (case hashString P domainName of None \<Rightarrow> Inl (Error ''poseidon'') | Some domainHash \<Rightarrow>
     (case hash3 P ms sessionNonce domainHash of
        None \<Rightarrow> Inl (Error ''poseidon'')
      | Some pseudonymRaw \<Rightarrow>
      let pseudonymHex = toHex pseudonymRaw in
     (case hashString P (storedId credential) of
        None \<Rightarrow> Inl (Error ''poseidon'')
      | Some credentialIdHash \<Rightarrow>
     (case hash3 P credentialIdHash sessionNonce domainHash of
        None \<Rightarrow> Inl (Error ''poseidon'')
      | Some nullifierRaw \<Rightarrow>
      let nullifierHex = toHex nullifierRaw;
          merkleProof = getNonMembershipProof response nullifierHex;
          snarkPublicInputs =
            \<lparr> pseudonym = pseudonymHex, nullifier = nullifierHex,
              commitmentHash = commitmentHashHex, registryRoot = nmRoot merkleProof,
              challenge = challengeValue chal \<rparr>
      in
     (case bigIntOfOptionalHex (nmLowNullifier merkleProof) of
        None \<Rightarrow> Inl SyntaxError
      | Some lowN \<Rightarrow>
     (case bigIntOfOptionalHex (nmLowNullifierNextValue merkleProof) of
        None \<Rightarrow> Inl SyntaxError
      | Some lowNext \<Rightarrow>
     (case those (map bigIntOfHex (nmSiblings merkleProof)) of
        None \<Rightarrow> Inl SyntaxError
      | Some merkleSiblings \<Rightarrow>
      let snarkPrivateInputs =
            \<lparr> privMasterSecret = ms, privSessionNonce = sessionNonce,
              privDomainHash = domainHash, privCredentialIdHash = credentialIdHash,
              privBlindingFactor = int blindingFactor, privLowNullifier = lowN,
              privLowNullifierNextValue = lowNext,
              privLowNullifierNextIdx =
                (case nmLowNullifierNextIdx merkleProof of None \<Rightarrow> 0 | Some i \<Rightarrow> int i),
              privMerkleSiblings = map int merkleSiblings,
              privMerklePathIndices = nmPathIndices merkleProof \<rparr>
      in
     (case generateSnarkProof P ready fullProve snarkPublicInputs snarkPrivateInputs of
        Inl e \<Rightarrow> Inl e
      | Inr snark \<Rightarrow>
      let bbs = (if length revealedAttributeIndices > 0
                 then Some (generateBBSSelectiveProof credential revealedAttributeIndices
                              (challengeValue chal))
                 else None);
          hybrid = \<lparr> snarkProof = snark, publicInputs = snarkPublicInputs, bbsProof = bbs,
                     declaredCommitmentHash = commitmentHashHex \<rparr>
      in Inr \<lparr> pkgChallengeId = challengeId chal, pkgChallenge = challengeValue chal,
               hybridProof = hybrid, pkgPseudonym = pseudonymHex, pkgNullifier = nullifierHex,
               pkgDomain = domainName, pkgRegistryRoot = nmRoot merkleProof,
               pkgTimestamp = now \<rparr>))))))))))))"

text \<open>A run of the generator without a circuit and without a reachable registry.\<close>

definition walletCredential :: StoredCredential where
  "walletCredential =
     \<lparr> storedId = ''cred-1'', storedBbsSignature = ''sig'', storedCommitmentHash = ''0c'',
       storedBlindingFactor = ''07'', storedIssuerPublicKey = ''key'' \<rparr>"

definition walletChallenge :: AuthChallenge where
  "walletChallenge =
     \<lparr> challengeId = ''ch_1'', challengeValue = ''0e'', challengeDomain = ''example.com'',
       challengeRegistryRoot = ''0d'', circuitId = CIRCUIT_ID, createdAt = 0,
       expiresAt = CHALLENGE_TTL_MS \<rparr>"

definition placeholderBBS :: "StoredCredential \<Rightarrow> int list \<Rightarrow> string \<Rightarrow> BBSSelectiveDisclosureProof" where
  "placeholderBBS credential indices nonceHex =
     \<lparr> bbsProofBytes = [], revealedIndices = 0 # filter (\<lambda>i. i \<noteq> 0) indices,
       revealedMessages = [0 \<mapsto> storedCommitmentHash credential],
       issuerPublicKey = storedIssuerPublicKey credential, nonce = nonceHex \<rparr>"

section \<open>Properties of the hybrid verifier\<close>

lemma hexToDecimal_demo:
  "hexToDecimal ''0a'' = Some ''10''" "hexToDecimal ''0b'' = Some ''11''"
  "hexToDecimal ''0c'' = Some ''12''" "hexToDecimal ''0d'' = Some ''13''"
  "hexToDecimal ''0e'' = Some ''14''"
  by (simp_all add: hexToDecimal_def startsWith0x_def bigIntOfHex_def isJsSpace_def testHex_def
      isHexDigit_def hexValue_def hexDigitVal_def digitChar_def toStringBase.simps)

lemma verifySnarkProof_demo:
  "verifySnarkProof (\<lambda>vk signals p. Returned False) readyVerifier demoHybridProof = True"
  by (simp add: verifySnarkProof_def readyVerifier_def demoHybridProof_def demoProof_def
      demoInputs_def validateSnarkStructure_def publicSignalsOf_def hexToDecimal_demo
      isDemoModeProof_def performStructuralVerification_def testHex_def isHexDigit_def)

lemma verifyBinding_demo:
  "verifyBinding demoHybridProof = Some True" "bbsProof demoHybridProof = None"
  by (simp_all add: verifyBinding_def demoHybridProof_def demoInputs_def)

text \<open>
  C3, as the specification states it: a failed registry request never ends in
  \<open>valid = true\<close>. It fails on the code: with a SNARK proof that snarkjs accepts, a
  matching declared commitment and both registry requests failing, \<open>verify\<close> returns a
  valid result.
\<close>

theorem registry_failure_hard_counterexample:
  "valid (verify (\<lambda>vk signals p. Returned True) (\<lambda>b. ()) FetchFailed FetchFailed
            readyVerifier demoPackage) = True"
  by (simp add: verify_def initialResult_def verifySnarkProof_def readyVerifier_def
      demoPackage_def demoHybridProof_def demoProof_def demoInputs_def
      validateSnarkStructure_def publicSignalsOf_def hexToDecimal_demo verifyBinding_def
      verifyRegistryRoot_def checkNullifierFresh_def)

text \<open>
  C3, amended. An unreachable registry is accepted: \<open>verifyRegistryRoot\<close> and
  \<open>checkNullifierFresh\<close> both answer true when their request fails or comes back with a
  non-OK status, so the result of \<open>verify\<close> is then valid exactly when the SNARK check,
  the BBS+ check (if a BBS+ proof is present) and the binding check pass.
\<close>

theorem registry_unavailable_accepted:
  assumes "unavailable rootResponse" and "unavailable checkResponse"
  shows "verifyRegistryRoot rootResponse claimedRoot = True
    \<and> checkNullifierFresh checkResponse nf = True
    \<and> valid (verify groth16_verify extract rootResponse checkResponse this authPackage) =
           (verifySnarkProof groth16_verify this (hybridProof authPackage) \<and>
            (case bbsProof (hybridProof authPackage) of None \<Rightarrow> True | Some b \<Rightarrow> verifyBBSProof b) \<and>
            verifyBinding (hybridProof authPackage) = Some True)"
proof -
  have root: "verifyRegistryRoot rootResponse r = True" for r
    using assms(1) by (cases rootResponse) (simp_all add: unavailable_def verifyRegistryRoot_def)
  have fresh: "checkNullifierFresh checkResponse n = True" for n
    using assms(2) by (cases checkResponse) (simp_all add: unavailable_def checkNullifierFresh_def)
  have "valid (verify groth16_verify extract rootResponse checkResponse this authPackage) =
           (verifySnarkProof groth16_verify this (hybridProof authPackage) \<and>
            (case bbsProof (hybridProof authPackage) of None \<Rightarrow> True | Some b \<Rightarrow> verifyBBSProof b) \<and>
            verifyBinding (hybridProof authPackage) = Some True)"
    by (cases "bbsProof (hybridProof authPackage)";
        cases "verifyBinding (hybridProof authPackage)")
       (auto simp add: verify_def initialResult_def Let_def root fresh)
  with root fresh show ?thesis by simp
qed

theorem registry_unavailable_accepted_witness:
  "unavailable (Response False (None :: string option)) \<and>
   unavailable (FetchFailed :: bool fetch_outcome) \<and>
   valid (verify (\<lambda>vk signals p. Returned False) (\<lambda>b. ()) (Response False None) FetchFailed
            readyVerifier demoPackage) = True"
  using registry_unavailable_accepted [of "Response False (None :: string option)"
      "FetchFailed :: bool fetch_outcome" "[]" "[]" "\<lambda>vk signals p. Returned False" "\<lambda>b. ()"
      readyVerifier demoPackage]
  by (simp add: unavailable_def verifySnarkProof_demo demoPackage_def verifyBinding_demo)

text \<open>
  C10. A Groth16-shaped proof that snarkjs rejects under the loaded verification key is
  still accepted by \<open>verifySnarkProof\<close> when it looks like a demo proof: its first two
  \<open>pi_a\<close> (or \<open>pi_c\<close>) entries coincide, some \<open>pi_a\<close> entry is none of \<open>"0"\<close>,
  \<open>""\<close>, \<open>"1"\<close>, and the pseudonym and nullifier inputs are hexadecimal strings.
\<close>

theorem demo_proof_accepted_after_failed_snark:
  assumes "validateSnarkStructure (snarkProof hp)"
    and "circuitReady this" and "verificationKey this = Some vk"
    and "publicSignalsOf (publicInputs hp) = Some signals"
    and "groth16_verify vk signals (snarkProof hp) = Returned False"
    and "isDemoModeProof (snarkProof hp)"
    and "list_ex (\<lambda>v. v \<noteq> ''0'' \<and> v \<noteq> '''' \<and> v \<noteq> ''1'') (pi_a (snarkProof hp))"
    and "testHex (pseudonym (publicInputs hp))" and "testHex (nullifier (publicInputs hp))"
  shows "verifySnarkProof groth16_verify this hp = True"
  using assms by (simp add: verifySnarkProof_def performStructuralVerification_def)

theorem demo_proof_accepted_after_failed_snark_witness:
  "validateSnarkStructure (snarkProof demoHybridProof) \<and>
   publicSignalsOf (publicInputs demoHybridProof) = Some [''10'', ''11'', ''12'', ''13'', ''14''] \<and>
   isDemoModeProof (snarkProof demoHybridProof) \<and>
   verifySnarkProof (\<lambda>vk signals p. Returned False) readyVerifier demoHybridProof = True"
  using demo_proof_accepted_after_failed_snark [of demoHybridProof readyVerifier "()"
      "[''10'', ''11'', ''12'', ''13'', ''14'']" "\<lambda>vk signals p. Returned False"]
  by (simp add: readyVerifier_def demoHybridProof_def demoProof_def demoInputs_def
      validateSnarkStructure_def publicSignalsOf_def hexToDecimal_demo isDemoModeProof_def
      testHex_def isHexDigit_def)

section \<open>Properties of the indexed Merkle tree\<close>

lemma rebuildTree_leaves [simp]:
  "leaves (rebuildTree P2 P3 t) = leaves t"
  "nullifierIndex (rebuildTree P2 P3 t) = nullifierIndex t"
  by (simp_all add: rebuildTree_def computeEmptySubtreeHashes_def Let_def split: prod.splits)

lemma findPredecessor_aux:
  assumes "ls \<noteq> []" "leafValue (ls ! 0) < v" "n \<le> length ls"
  shows "let p = fold (predecessorStep ls v) [0..<n] 0
         in p < length ls \<and> leafValue (ls ! p) < v \<and>
            (\<forall>j<n. leafValue (ls ! j) < v \<longrightarrow> leafValue (ls ! j) \<le> leafValue (ls ! p))"
  using assms(3)
proof (induction n)
  case 0
  then show ?case using assms(1,2) by simp
next
  case (Suc n)
  then show ?case
    by (auto simp add: Let_def less_Suc_eq predecessorStep_def)
qed

lemma findPredecessor_spec:
  assumes "ls \<noteq> []" "leafValue (ls ! 0) < v"
  shows "findPredecessor ls v < length ls"
    and "leafValue (ls ! findPredecessor ls v) < v"
    and "\<And>j. j < length ls \<Longrightarrow> leafValue (ls ! j) < v \<Longrightarrow>
           leafValue (ls ! j) \<le> leafValue (ls ! findPredecessor ls v)"
  using findPredecessor_aux [OF assms, of "length ls"]
  by (simp_all add: findPredecessor_def Let_def)

lemma linkedInv_insert:
  assumes inv: "linkedInv ls" and pos: "0 < v" and fresh: "v \<notin> set (map leafValue ls)"
  defines "p \<equiv> findPredecessor ls v"
  defines "ls' \<equiv> ls[p := (ls ! p)\<lparr>nextValue := v, nextIdx := length ls\<rparr>] @
                   [\<lparr>leafValue = v, nextValue = nextValue (ls ! p), nextIdx = nextIdx (ls ! p)\<rparr>]"
  shows "linkedInv ls'" and "map leafValue ls' = map leafValue ls @ [v]"
proof -
  let ?n = "length ls"
  from inv have ne: "ls \<noteq> []" and head: "leafValue (ls ! 0) = 0"
    and dist: "distinct (map leafValue ls)"
    by (simp_all add: linkedInv_def)
  from inv have link: "\<And>i. i < ?n \<Longrightarrow> nextIdx (ls ! i) < ?n \<and>
         leafValue (ls ! nextIdx (ls ! i)) = nextValue (ls ! i)"
    by (simp add: linkedInv_def)
  from inv have tail: "\<And>i j. i < ?n \<Longrightarrow> nextValue (ls ! i) = 0 \<Longrightarrow> j < ?n \<Longrightarrow>
         leafValue (ls ! j) \<le> leafValue (ls ! i)"
    by (simp add: linkedInv_def)
  from inv have mid1: "\<And>i. i < ?n \<Longrightarrow> nextValue (ls ! i) \<noteq> 0 \<Longrightarrow>
         leafValue (ls ! i) < nextValue (ls ! i)"
    by (simp add: linkedInv_def)
  from inv have mid2: "\<And>i j. i < ?n \<Longrightarrow> nextValue (ls ! i) \<noteq> 0 \<Longrightarrow> j < ?n \<Longrightarrow>
         leafValue (ls ! j) \<le> leafValue (ls ! i) \<or> nextValue (ls ! i) \<le> leafValue (ls ! j)"
    by (simp add: linkedInv_def)
  have h0: "leafValue (ls ! 0) < v" using head pos by simp
  have pn: "p < ?n" and pv: "leafValue (ls ! p) < v"
    and pmax: "\<And>j. j < ?n \<Longrightarrow> leafValue (ls ! j) < v \<Longrightarrow> leafValue (ls ! j) \<le> leafValue (ls ! p)"
    unfolding p_def using findPredecessor_spec [OF ne h0] by blast+
  have freshn: "\<And>j. j < ?n \<Longrightarrow> leafValue (ls ! j) \<noteq> v"
    using fresh nth_mem by fastforce
  have inj: "\<And>i j. i < ?n \<Longrightarrow> j < ?n \<Longrightarrow> leafValue (ls ! i) = leafValue (ls ! j) \<Longrightarrow> i = j"
    using dist by (metis length_map nth_eq_iff_index_eq nth_map)
  show vals: "map leafValue ls' = map leafValue ls @ [v]"
    unfolding ls'_def using pn by (simp add: map_update list_update_same_conv)
  have len: "length ls' = Suc ?n" by (simp add: ls'_def)
  have val': "\<And>k. k < ?n \<Longrightarrow> leafValue (ls' ! k) = leafValue (ls ! k)"
    using pn by (simp add: ls'_def nth_append nth_list_update)
  have valn: "leafValue (ls' ! ?n) = v" by (simp add: ls'_def nth_append)
  have other: "\<And>k. k < ?n \<Longrightarrow> k \<noteq> p \<Longrightarrow> ls' ! k = ls ! k"
    by (simp add: ls'_def nth_append)
  have atp: "nextValue (ls' ! p) = v" "nextIdx (ls' ! p) = ?n"
    using pn by (simp_all add: ls'_def nth_append)
  have atn: "nextValue (ls' ! ?n) = nextValue (ls ! p)" "nextIdx (ls' ! ?n) = nextIdx (ls ! p)"
    by (simp_all add: ls'_def nth_append)
  have all': "\<And>j. j < Suc ?n \<Longrightarrow> leafValue (ls' ! j) = v \<or> (j < ?n \<and> leafValue (ls' ! j) = leafValue (ls ! j))"
    using val' valn by (auto simp add: less_Suc_eq)
  have step: "nextIdx (ls' ! i) < Suc ?n \<and>
         leafValue (ls' ! nextIdx (ls' ! i)) = nextValue (ls' ! i) \<and>
         (if nextValue (ls' ! i) = 0
          then \<forall>j<Suc ?n. leafValue (ls' ! j) \<le> leafValue (ls' ! i)
          else leafValue (ls' ! i) < nextValue (ls' ! i) \<and>
               (\<forall>j<Suc ?n. leafValue (ls' ! j) \<le> leafValue (ls' ! i) \<or>
                                nextValue (ls' ! i) \<le> leafValue (ls' ! j)))"
    if i: "i < Suc ?n" for i
  proof -
    consider (new) "i = ?n" | (pred) "i = p" | (old) "i < ?n" "i \<noteq> p"
      using i by force
    then show ?thesis
    proof cases
      case new
      have a: "nextIdx (ls ! p) < ?n" "leafValue (ls ! nextIdx (ls ! p)) = nextValue (ls ! p)"
        using link [OF pn] by simp_all
      have b: "nextValue (ls ! p) \<noteq> 0 \<Longrightarrow> v < nextValue (ls ! p)"
      proof -
        assume nz: "nextValue (ls ! p) \<noteq> 0"
        have "nextValue (ls ! p) \<noteq> v" using a freshn by metis
        moreover have "\<not> nextValue (ls ! p) < v"
          using pmax [OF a(1)] a(2) mid1 [OF pn nz] by auto
        ultimately show ?thesis by simp
      qed
      show ?thesis
        unfolding new atn valn
        using a b pv val' all' tail [OF pn] mid2 [OF pn]
        by (auto simp add: less_Suc_eq) (metis le_less_trans less_imp_le_nat not_le)+
    next
      case pred
      have "leafValue (ls' ! j) \<le> leafValue (ls ! p) \<or> v \<le> leafValue (ls' ! j)"
        if "j < Suc ?n" for j
        using all' [OF that] pmax [of j] by force
      then show ?thesis
        unfolding pred atp valn val' [OF pn] using pos pv by simp
    next
      case old
      have a: "nextIdx (ls ! i) < ?n" "leafValue (ls ! nextIdx (ls ! i)) = nextValue (ls ! i)"
        using link [OF old(1)] by simp_all
      have c: "nextValue (ls ! i) = 0 \<Longrightarrow> v \<le> leafValue (ls ! i)"
      proof (rule ccontr)
        assume z: "nextValue (ls ! i) = 0" and "\<not> v \<le> leafValue (ls ! i)"
        then have "leafValue (ls ! i) < v" by simp
        then have "leafValue (ls ! i) \<le> leafValue (ls ! p)" using pmax old(1) by simp
        moreover have "leafValue (ls ! p) \<le> leafValue (ls ! i)" using tail [OF old(1) z pn] .
        ultimately show False using inj [OF old(1) pn] old(2) by simp
      qed
      have d: "nextValue (ls ! i) \<noteq> 0 \<Longrightarrow> v \<le> leafValue (ls ! i) \<or> nextValue (ls ! i) \<le> v"
      proof (rule ccontr)
        assume nz: "nextValue (ls ! i) \<noteq> 0"
          and "\<not> (v \<le> leafValue (ls ! i) \<or> nextValue (ls ! i) \<le> v)"
        then have lt: "leafValue (ls ! i) < v" "v < nextValue (ls ! i)" by simp_all
        have "leafValue (ls ! i) \<le> leafValue (ls ! p)" using pmax old(1) lt(1) by simp
        moreover have "leafValue (ls ! p) \<le> leafValue (ls ! i)"
          using mid2 [OF old(1) nz pn] pv lt(2) by auto
        ultimately show False using inj [OF old(1) pn] old(2) by simp
      qed
      have e: "leafValue (ls' ! nextIdx (ls ! i)) = nextValue (ls ! i)"
        using a val' by simp
      have f: "leafValue (ls' ! j) \<le> leafValue (ls ! i)"
        if "nextValue (ls ! i) = 0" "j < Suc ?n" for j
        using all' [OF that(2)] c [OF that(1)] tail [OF old(1) that(1), of j] by force
      have g: "leafValue (ls' ! j) \<le> leafValue (ls ! i) \<or> nextValue (ls ! i) \<le> leafValue (ls' ! j)"
        if "nextValue (ls ! i) \<noteq> 0" "j < Suc ?n" for j
        using all' [OF that(2)] d [OF that(1)] mid2 [OF old(1) that(1), of j] by force
      show ?thesis
        unfolding other [OF old]
        using a(1) e f g mid1 [OF old(1)] by simp
    qed
  qed
  have "ls' \<noteq> []" by (simp add: ls'_def)
  moreover have "leafValue (ls' ! 0) = 0"
    using val' [of 0] ne head by simp
  moreover have "distinct (map leafValue ls')"
    using vals dist fresh by simp
  ultimately show "linkedInv ls'"
    using step unfolding linkedInv_def len by blast
qed

lemma linkedInv_sortedLinked:
  assumes "linkedInv ls"
  shows "sortedLinked ls"
  unfolding sortedLinked_def list_all_length
proof (intro allI impI)
  fix i assume i: "i < length ls"
  from assms i have a: "nextIdx (ls ! i) < length ls"
    "leafValue (ls ! nextIdx (ls ! i)) = nextValue (ls ! i)"
    "nextValue (ls ! i) \<noteq> 0 \<longrightarrow> leafValue (ls ! i) < nextValue (ls ! i)"
    unfolding linkedInv_def by (metis (no_types, lifting))+
  then show "nextIdx (ls ! i) < length ls \<and>
         (leafValue (ls ! i) < leafValue (ls ! nextIdx (ls ! i)) \<or>
          leafValue (ls ! nextIdx (ls ! i)) = 0)"
    by auto
qed

lemma addLeaf_fresh:
  assumes inv: "treeInv t" and parse: "hexToBigInt nf = Some v" and pos: "0 < v"
    and fresh: "v \<notin> set (map leafValue (leaves t))"
  shows "\<exists>t'. addLeaf P2 P3 t nf = Inr (t', length (leaves t)) \<and> treeInv t' \<and>
              map leafValue (leaves t') = map leafValue (leaves t) @ [v]"
proof -
  from inv have li: "linkedInv (leaves t)" and ki: "keysInv t" by (simp_all add: treeInv_def)
  have nokey: "nullifierIndex t nf = None"
  proof (cases "nullifierIndex t nf")
    case (Some i)
    with ki parse fresh show ?thesis unfolding keysInv_def by fastforce
  qed simp
  have ne: "leaves t \<noteq> []" using li by (simp add: linkedInv_def)
  let ?p = "findPredecessor (leaves t) v"
  let ?ls = "(leaves t)[?p := (leaves t ! ?p)\<lparr>nextValue := v, nextIdx := length (leaves t)\<rparr>] @
             [\<lparr>leafValue = v, nextValue = nextValue (leaves t ! ?p), nextIdx = nextIdx (leaves t ! ?p)\<rparr>]"
  let ?t1 = "t\<lparr>leaves := ?ls, nullifierIndex := (nullifierIndex t)(nf \<mapsto> length (leaves t))\<rparr>"
  have eq: "addLeaf P2 P3 t nf = Inr (rebuildTree P2 P3 ?t1, length (leaves t))"
    using parse nokey ne by (simp add: addLeaf_def Let_def)
  have li': "linkedInv ?ls" and vals: "map leafValue ?ls = map leafValue (leaves t) @ [v]"
    using linkedInv_insert [OF li pos fresh] by simp_all
  have "keysInv (rebuildTree P2 P3 ?t1)"
    unfolding keysInv_def
  proof (intro allI impI)
    fix k i assume "nullifierIndex (rebuildTree P2 P3 ?t1) k = Some i"
    then have "k = nf \<or> nullifierIndex t k = Some i" by (simp split: if_splits)
    then show "\<exists>w\<in>set (map leafValue (leaves (rebuildTree P2 P3 ?t1))). hexToBigInt k = Some w"
    proof
      assume "k = nf" then show ?thesis using parse vals by simp
    next
      assume "nullifierIndex t k = Some i"
      with ki obtain w where "w \<in> set (map leafValue (leaves t))" "hexToBigInt k = Some w"
        unfolding keysInv_def by blast
      then show ?thesis using vals by auto
    qed
  qed
  with li' vals eq show ?thesis by (simp add: treeInv_def)
qed

lemma addLeaves_fresh:
  assumes "treeInv t" and "map hexToBigInt nfs = map Some vs" and "distinct vs"
    and "0 \<notin> set vs" and "set vs \<inter> set (map leafValue (leaves t)) = {}"
  shows "\<exists>t'. addLeaves P2 P3 t nfs = Inr t' \<and> treeInv t' \<and>
              map leafValue (leaves t') = map leafValue (leaves t) @ vs"
  using assms
proof (induction nfs arbitrary: t vs)
  case Nil
  then show ?case by simp
next
  case (Cons nf nfs)
  from Cons.prems(2) obtain v ws where vs: "vs = v # ws" and parse: "hexToBigInt nf = Some v"
    and rest: "map hexToBigInt nfs = map Some ws"
    by (cases vs) auto
  from Cons.prems(3-5) vs have pos: "0 < v" and fresh: "v \<notin> set (map leafValue (leaves t))"
    and dws: "distinct ws" and zws: "0 \<notin> set ws" and vws: "v \<notin> set ws"
    and disj: "set ws \<inter> set (map leafValue (leaves t)) = {}"
    by auto
  from addLeaf_fresh [OF Cons.prems(1) parse pos fresh, of P2 P3]
  obtain t1 where t1: "addLeaf P2 P3 t nf = Inr (t1, length (leaves t))" "treeInv t1"
    "map leafValue (leaves t1) = map leafValue (leaves t) @ [v]" by blast
  have "set ws \<inter> set (map leafValue (leaves t1)) = {}"
    using disj vws t1(3) by auto
  from Cons.IH [OF t1(2) rest dws zws this]
  obtain t' where "addLeaves P2 P3 t1 nfs = Inr t'" "treeInv t'"
    "map leafValue (leaves t') = map leafValue (leaves t1) @ ws" by blast
  then show ?case using t1 vs by simp
qed

lemma initialize_treeInv:
  "treeInv (initialize P2 P3 (newIndexedMerkleTree h))"
  "map leafValue (leaves (initialize P2 P3 (newIndexedMerkleTree h))) = [0]"
  by (simp_all add: treeInv_def linkedInv_def keysInv_def initialize_def initializeEmptyTree_def
      newIndexedMerkleTree_def)

text \<open>
  C6. From the initial tree (only the head leaf), any sequence of \<open>addLeaf\<close> calls
  whose nullifiers parse to pairwise distinct non-zero values succeeds and ends in a
  leaf list in which every leaf points at a leaf of greater value or of value 0, and in
  which all values (the head's 0 and the inserted ones, in insertion order) are distinct.
\<close>

theorem sorted_linked_list_preserved:
  assumes "map hexToBigInt nfs = map Some vs" and "distinct vs" and "0 \<notin> set vs"
  shows "\<exists>t. addLeaves P2 P3 (initialize P2 P3 (newIndexedMerkleTree h)) nfs = Inr t \<and>
             sortedLinked (leaves t) \<and>
             map leafValue (leaves t) = 0 # vs \<and> distinct (map leafValue (leaves t))"
proof -
  have "set vs \<inter> set (map leafValue (leaves (initialize P2 P3 (newIndexedMerkleTree h)))) = {}"
    using assms(3) by (simp add: initialize_treeInv(2))
  from addLeaves_fresh [OF initialize_treeInv(1) assms this, of P2 P3]
  obtain t where t: "addLeaves P2 P3 (initialize P2 P3 (newIndexedMerkleTree h)) nfs = Inr t"
    "treeInv t" "map leafValue (leaves t) = 0 # vs"
    by (auto simp add: initialize_treeInv(2))
  then show ?thesis
    using linkedInv_sortedLinked assms(2,3) by (auto simp add: treeInv_def)
qed

subsection \<open>Evaluation on the demonstration tree\<close>

lemma upt20: "[0..<20] = [0, Suc 0, 2, 3, 4, 5, 6, 7, 8, 9, 10, 11, 12, 13, 14, 15, 16, 17, 18, 19]"
  by (simp add: upt_conv_Cons)

lemma rebuildTree_fields:
  "tree (rebuildTree P2 P3 t) =
     fst (fold (rebuildLevel P2 (emptySubtreeHashes (computeEmptySubtreeHashes P2 P3 t)))
            [0..<height t] ([map (leafHash P3) (leaves t)], map (leafHash P3) (leaves t)))"
  "emptySubtreeHashes (rebuildTree P2 P3 t) = emptySubtreeHashes (computeEmptySubtreeHashes P2 P3 t)"
  "height (rebuildTree P2 P3 t) = height t"
  by (simp_all add: rebuildTree_def computeEmptySubtreeHashes_def Let_def)

lemma computeEmpty_fields:
  "emptySubtreeHashes (computeEmptySubtreeHashes P2 P3 t) =
     (if emptySubtreeHashes t \<noteq> [] then emptySubtreeHashes t
      else fst (fold (emptySubtreeStep P2) [0..<height t] ([P3 0 0 0], P3 0 0 0)))"
  by (simp add: computeEmptySubtreeHashes_def Let_def getEmptyLeafHash_def)

lemma demoEmptyHashes_eval:
  "fst (fold (emptySubtreeStep demoP2) [0..<20] ([2], 2)) = demoEmptyHashes"
  by (simp add: upt20 emptySubtreeStep_def demoP2_def Let_def demoEmptyHashes_def)

lemma demoP3_zero: "demoP3 0 0 0 = 2"
  by (simp add: demoP3_def)

lemma demoTree_fields:
  "leaves demoTree = [\<lparr>leafValue = 0, nextValue = 0, nextIdx = 0\<rparr>]"
  "height demoTree = 20"
  "emptySubtreeHashes demoTree = demoEmptyHashes"
  "nullifierIndex demoTree = Map.empty"
  by (simp_all add: demoTree_def initialize_def initializeEmptyTree_def rebuildTree_fields
      computeEmpty_fields newIndexedMerkleTree_def TREE_HEIGHT_def demoP3_zero demoEmptyHashes_eval)

lemma hexToBigInt_demo:
  "hexToBigInt ''05'' = Some 5" "hexToBigInt ''03'' = Some 3"
  by (simp_all add: hexToBigInt_def startsWith0x_def bigIntOfHex_def isJsSpace_def testHex_def
      isHexDigit_def hexValue_def hexDigitVal_def)

lemma demoTree1_fields:
  "leaves demoTree1 = [\<lparr>leafValue = 0, nextValue = 5, nextIdx = 1\<rparr>,
                       \<lparr>leafValue = 5, nextValue = 0, nextIdx = 0\<rparr>]"
  "height demoTree1 = 20"
  "emptySubtreeHashes demoTree1 = demoEmptyHashes"
  "nullifierIndex demoTree1 ''05'' = Some 1"
  by (simp_all add: demoTree1_def addLeaf_def hexToBigInt_demo demoTree_fields Let_def
      findPredecessor_def predecessorStep_def rebuildTree_fields computeEmpty_fields
      demoEmptyHashes_def)

lemma demoEmptyHashes_ne: "demoEmptyHashes \<noteq> []"
  by (simp add: demoEmptyHashes_def)

lemma demoTree1_tree:
  "tree demoTree1 =
     [[70, 37], [396], [1274], [4508], [19010], [100916], [653834], [770176],
      [779942], [95166], [328270], [326981], [718324], [54018], [354471],
      [602741], [122851], [885617], [793343], [472002], [151830]]"
  apply (simp add: demoTree1_def addLeaf_def hexToBigInt_demo demoTree_fields Let_def
      findPredecessor_def predecessorStep_def rebuildTree_fields computeEmpty_fields demoEmptyHashes_ne)
  apply (simp add: demoEmptyHashes_def upt20 rebuildLevel_def leafHash_def demoP2_def demoP3_def Let_def)
  done

lemma replicate_numeral_Cons:
  "replicate (numeral k) x = x # replicate (pred_numeral k) x"
  by (simp add: numeral_eq_Suc)

lemma demo_getPathIndices: "getPathIndices demoTree1 (Suc 0) = pathIndices demoMembershipProof"
  by (simp add: getPathIndices_def demoTree1_fields upt20 pathIndexStep_def demoMembershipProof_def)

lemma demo_getRoot: "getRoot demoP3 demoTree1 = root demoMembershipProof"
  by (simp add: getRoot_def getRootBigInt_def demoTree1_tree bigIntToHex_def padStart_def
      toStringBase.simps digitChar_def replicate_numeral_Cons demoMembershipProof_def)

lemma demo_getSiblings: "getSiblings demoTree1 (Suc 0) = siblings demoMembershipProof"
  by (simp add: getSiblings_def demoTree1_fields demoTree1_tree upt20 siblingStep_def Let_def
      demoEmptyHashes_def bigIntToHex_def padStart_def toStringBase.simps digitChar_def replicate_numeral_Cons
      demoMembershipProof_def)

lemma demo_getMembershipProof:
  "getMembershipProof demoP3 demoTree1 ''05'' = Some demoMembershipProof"
  apply (simp add: getMembershipProof_def demoTree1_fields getProofByIndex_def
      demo_getPathIndices demo_getRoot demo_getSiblings)
  apply (simp add: demoMembershipProof_def bigIntToHex_def padStart_def
      toStringBase.simps digitChar_def replicate_numeral_Cons)
  done

lemma demo_hexToBigInt_root:
  "hexToBigInt (root demoMembershipProof) = Some 151830"
  by (simp add: demoMembershipProof_def hexToBigInt_def startsWith0x_def bigIntOfHex_def
      isJsSpace_def testHex_def isHexDigit_def hexValue_def hexDigitVal_def)

lemma demo_foldPath_raw:
  "foldPath demoP2 5 (siblings demoMembershipProof) (pathIndices demoMembershipProof) = Some 874996"
  by (simp add: demoMembershipProof_def hexToBigInt_def startsWith0x_def bigIntOfHex_def
      isJsSpace_def testHex_def isHexDigit_def hexValue_def hexDigitVal_def demoP2_def)

lemma demo_foldPath_hashed:
  "foldPath demoP2 (demoP3 5 0 0) (siblings demoMembershipProof) (pathIndices demoMembershipProof) = Some 151830"
  by (simp add: demoMembershipProof_def hexToBigInt_def startsWith0x_def bigIntOfHex_def
      isJsSpace_def testHex_def isHexDigit_def hexValue_def hexDigitVal_def demoP2_def demoP3_def)

lemma addLeaf_existing:
  assumes "nullifierIndex t nf = Some idx" and "hexToBigInt nf = Some v"
  shows "addLeaf P2 P3 t nf = Inr (t, idx)"
  using assms by (simp add: addLeaf_def)

text \<open>
  C4. The specification has \<open>verifyProof\<close> rehash the claimed leaf with Poseidon-3 before
  folding up the path. The code folds from the raw leaf value, while the tree it checks
  against is built over leaf hashes (\<open>rebuildTree\<close>, \<open>leafHash\<close>). On the demonstration
  tree holding the nullifier \<open>"05"\<close>, the membership proof the tree itself issues is
  rejected, although folding from the leaf hash reaches the root.
\<close>

theorem verifyProof_rejects_own_membership_proof:
  "getMembershipProof demoP3 demoTree1 ''05'' = Some demoMembershipProof \<and>
   verifyProof demoP2 ''05'' demoMembershipProof = Inr False \<and>
   foldPath demoP2 (leafHash demoP3 (leaves demoTree1 ! leafIndex demoMembershipProof))
       (siblings demoMembershipProof) (pathIndices demoMembershipProof) =
     hexToBigInt (root demoMembershipProof)"
proof -
  have "leafHash demoP3 (leaves demoTree1 ! leafIndex demoMembershipProof) = demoP3 5 0 0"
    by (simp add: demoTree1_fields demoMembershipProof_def leafHash_def)
  then show ?thesis
    by (simp add: demo_getMembershipProof verifyProof_def hexToBigInt_demo demo_foldPath_raw
        demo_foldPath_hashed demo_hexToBigInt_root)
qed

text \<open>
  C5, as the specification states it: inserting a value that is already present fails with
  an error and returns no index. On the demonstration tree, which holds \<open>"05"\<close> at
  index 1, \<open>addLeaf("05")\<close> returns index 1.
\<close>

theorem addLeaf_already_present_counterexample:
  "addLeaf demoP2 demoP3 demoTree1 ''05'' = Inr (demoTree1, 1)"
  by (simp add: addLeaf_existing [OF demoTree1_fields(4) hexToBigInt_demo(1)])

text \<open>
  C5, amended. For a nullifier string that is already a key of the index, \<open>addLeaf\<close>
  returns the index stored for it and the unchanged tree, and the route
  \<open>POST /nullifiers/register\<close> answers 409 and leaves the registry unchanged.
\<close>

theorem addLeaf_existing_returns_index:
  assumes "nullifierIndex (merkleTree reg) nf = Some idx" and "hexToBigInt nf = Some v"
    and "bodyNullifier body = Some nf" and "nf \<noteq> []"
    and "\<not> falsy (bodyDomain body)" and "\<not> falsy (bodyPseudonym body)"
  shows "addLeaf P2 P3 (merkleTree reg) nf = Inr (merkleTree reg, idx) \<and>
         registerRoute P2 P3 now reg body = (reg, Status409)"
  using assms by (simp add: addLeaf_def registerRoute_def hasNullifier_def falsy_def)

theorem addLeaf_existing_returns_index_witness:
  "nullifierIndex demoTree1 ''05'' = Some 1 \<and> hexToBigInt ''05'' = Some 5 \<and>
   addLeaf demoP2 demoP3 demoTree1 ''05'' = Inr (demoTree1, 1) \<and>
   registerRoute demoP2 demoP3 0 \<lparr>merkleTree = demoTree1, nullifierRecords = Map.empty\<rparr>
     \<lparr>bodyNullifier = Some ''05'', bodyDomain = Some ''example.com'',
      bodyPseudonym = Some ''0a'', bodyTimestamp = None\<rparr> =
     (\<lparr>merkleTree = demoTree1, nullifierRecords = Map.empty\<rparr>, Status409)"
  using addLeaf_existing_returns_index [of "\<lparr>merkleTree = demoTree1, nullifierRecords = Map.empty\<rparr>"
      "''05''" 1 5 "\<lparr>bodyNullifier = Some ''05'', bodyDomain = Some ''example.com'',
      bodyPseudonym = Some ''0a'', bodyTimestamp = None\<rparr>" demoP2 demoP3 0]
  by (simp add: demoTree1_fields hexToBigInt_demo falsy_def)

theorem sorted_linked_list_preserved_witness:
  "map hexToBigInt [''05'', ''03''] = map Some [5, 3] \<and>
   (\<exists>t. addLeaves demoP2 demoP3 (initialize demoP2 demoP3 (newIndexedMerkleTree TREE_HEIGHT))
          [''05'', ''03''] = Inr t \<and>
        sortedLinked (leaves t) \<and> map leafValue (leaves t) = [0, 5, 3])"
  using sorted_linked_list_preserved [of "[''05'', ''03'']" "[5, 3]" demoP2 demoP3 TREE_HEIGHT]
  by (auto simp add: hexToBigInt_demo simp del: addLeaves.simps)

section \<open>Properties of the field helpers, Poseidon absorption and challenges\<close>

lemma digitChar_hex: "n < 16 \<Longrightarrow> isHexDigit (digitChar n)"
proof -
  assume "n < 16"
  then have "n \<in> {0,1,2,3,4,5,6,7,8,9,10,11,12,13,14,15}" by (simp; arith)
  then show ?thesis
    by (auto simp add: isHexDigit_def digitChar_def)
qed

lemma bytesToHex_hex: "list_all isHexDigit (bytesToHex bs)"
proof -
  have "unat b div 16 < 16 \<and> unat b mod 16 < 16" for b :: byte
    using unsigned_less [of b, where ?'a = nat] by (simp add: div_less_iff_less_mult) 
  then show ?thesis
    by (induction bs) (auto simp add: bytesToHex_def digitChar_hex)
qed

lemma bytesToHex_length: "length (bytesToHex bs) = 2 * length bs"
  by (induction bs) (simp_all add: bytesToHex_def)

lemma hex_not_space: "isHexDigit c \<Longrightarrow> \<not> isJsSpace c"
  by (auto simp add: isHexDigit_def isJsSpace_def)

lemma bigIntOfHex_hex:
  assumes "s \<noteq> []" and "list_all isHexDigit s"
  shows "bigIntOfHex s = Some (hexValue s)"
proof -
  have "rev s \<noteq> []" and "\<not> isJsSpace (hd (rev s))"
    using assms by (simp_all add: hex_not_space hd_rev list_all_iff)
  then have "dropWhile isJsSpace (rev s) = rev s"
    by (cases "rev s") simp_all
  then show ?thesis using assms by (simp add: bigIntOfHex_def testHex_def)
qed

lemma bigIntOfHex_bytesToHex:
  "bs \<noteq> [] \<Longrightarrow> bigIntOfHex (bytesToHex bs) = Some (hexValue (bytesToHex bs))"
  using bigIntOfHex_hex [of "bytesToHex bs"] bytesToHex_hex [of bs] bytesToHex_length [of bs]
  by (cases "bytesToHex bs") auto

lemma toStringBase_length:
  "2 \<le> b \<Longrightarrow> 0 < k \<Longrightarrow> n < b ^ k \<Longrightarrow> length (toStringBase b n) \<le> k"
proof (induction k arbitrary: n)
  case 0
  then show ?case by simp
next
  case (Suc k)
  show ?case
  proof (cases "n < b")
    case True
    then show ?thesis by (simp add: toStringBase.simps)
  next
    case False
    with Suc.prems have k: "0 < k" by (cases k) auto
    have "n div b < b ^ k"
      using Suc.prems by (simp add: less_mult_imp_div_less mult.commute)
    from Suc.IH [OF Suc.prems(1) k this] False Suc.prems(1) show ?thesis
      by (subst toStringBase.simps) simp
  qed
qed

lemma jsRem_range: "0 \<le> a \<Longrightarrow> 0 \<le> jsRem a FIELD_MODULUS \<and> jsRem a FIELD_MODULUS < FIELD_MODULUS"
  by (simp add: jsRem_def FIELD_MODULUS_def)

lemma field_hex_length:
  assumes "0 \<le> v" and "v < FIELD_MODULUS"
  shows "length (padStart 64 CHR ''0'' (bigIntToString16 v)) = 64"
proof -
  have "nat v < 16 ^ 64" using assms by (simp add: FIELD_MODULUS_def)
  then have "length (toStringBase 16 (nat v)) \<le> 64"
    by (intro toStringBase_length) simp_all
  then show ?thesis using assms by (simp add: padStart_def bigIntToString16_def)
qed

lemma ceil31_step: "0 < (n::nat) \<Longrightarrow> Suc ((n - 31 + 30) div 31) = (n + 30) div 31"
proof (cases "n \<le> 31")
  case True
  assume "0 < n"
  with True have "(n + 30) div 31 = 1"
    by (simp add: div_nat_eqI)
  with True show ?thesis by simp
next
  case False
  then obtain m where "n = m + 31" by (metis add.commute le_Suc_ex nat_le_linear)
  then show ?thesis by simp
qed

lemma chunks31_length: "length (chunks31 data) = (length data + 30) div 31"
proof (induction data rule: chunks31.induct)
  case (1 data)
  show ?case
  proof (cases "data = []")
    case True
    then show ?thesis by (simp add: chunks31.simps)
  next
    case False
    then have "0 < length data" by simp
    have "Suc ((length data - 31 + 30) div 31) = (length data + 30) div 31"
      using \<open>0 < length data\<close> by (rule ceil31_step)
    with 1 [OF False] False show ?thesis
      by (subst chunks31.simps) simp
  qed
qed

lemma chunks31_nonempty: "c \<in> set (chunks31 data) \<Longrightarrow> c \<noteq> []"
proof (induction data rule: chunks31.induct)
  case (1 data)
  show ?case
  proof (cases "data = []")
    case True
    with 1 show ?thesis by (simp add: chunks31.simps)
  next
    case False
    from 1(2) False have "c = take 31 data \<or> c \<in> set (chunks31 (drop 31 data))"
      by (subst (asm) chunks31.simps) auto
    then show ?thesis using 1(1) [OF False] False by auto
  qed
qed

lemma bytesToScalar_some:
  assumes "bs \<noteq> []"
  shows "\<exists>v. bytesToScalar bs = Some v \<and> 0 \<le> v \<and> v < FIELD_MODULUS"
  using bigIntOfHex_bytesToHex [OF assms] jsRem_range
  by (simp add: bytesToScalar_def)

lemma those_map_some:
  assumes "\<And>x. x \<in> set xs \<Longrightarrow> \<exists>v. f x = Some v \<and> Q v"
  shows "\<exists>vs. those (map f xs) = Some vs \<and> length vs = length xs \<and> (\<forall>v\<in>set vs. Q v)"
  using assms
proof (induction xs)
  case Nil
  then show ?case by simp
next
  case (Cons x xs)
  then obtain v vs where "f x = Some v" "Q v" "those (map f xs) = Some vs"
    "length vs = length xs" "\<forall>v\<in>set vs. Q v"
    by (metis list.set_intros(1,2))
  then show ?case by simp
qed

text \<open>
  C7, as the specification states it: the empty input hashes to \<open>hash2(0, 0)\<close>. In
  the code it hashes to 0, whatever Poseidon is; with the stand-in, \<open>hash2(0, 0)\<close> is
  not 0.
\<close>

theorem poseidon_fold_counterexample:
  "hashBytes demoPoseidon [] = Some 0 \<and> hash2 demoPoseidon 0 0 = Some (2 ^ 252)"
  by (simp add: hashBytes_def hashMany_def chunks31.simps hash2_def demoPoseidon_def)

lemma generateChallenge_result:
  assumes "challengeBytes \<noteq> []" and "getRegistryRoot sha256 rootResponse = Some rr"
  shows "generateChallenge sha256 nowId idBytes challengeBytes rootResponse nowCreated
             store domainName =
         (let ch = \<lparr> challengeId = ''ch_'' @ toStringBase 36 nowId @ ''_'' @ bytesToHex idBytes,
                       challengeValue = padStart 64 CHR ''0'' (toStringBase 16
                          (nat (jsRem (int (hexValue (bytesToHex challengeBytes))) FIELD_MODULUS))),
                       challengeDomain = domainName, challengeRegistryRoot = rr,
                       circuitId = CIRCUIT_ID, createdAt = nowCreated,
                       expiresAt = nowCreated + 5 * 60 * 1000 \<rparr>
          in Inr (store(challengeId ch \<mapsto> ch), ch))"
proof -
  have "0 \<le> jsRem (int (hexValue (bytesToHex challengeBytes))) FIELD_MODULUS"
    using jsRem_range by simp
  then show ?thesis
    using bigIntOfHex_bytesToHex [OF assms(1)] assms(2)
    by (simp add: generateChallenge_def generateChallengeId_def Let_def CHALLENGE_TTL_MS_def
        bigIntToString16_def)
qed

lemma replicate8: "replicate 8 x = [x, x, x, x, x, x, x, x]"
  by (simp add: numeral_eq_Suc)

text \<open>
  C9, as the specification states it: the identifier carries the creation timestamp and 8
  random hexadecimal characters. With the clock at 1000 when the identifier is made and at
  1001 when \<open>createdAt\<close> is set, and 8 zero bytes drawn, the identifier carries
  \<open>"rs"\<close> (1000 in base 36, not \<open>"rt"\<close>) and 16 hexadecimal characters.
\<close>

theorem challenge_id_counterexample:
  "(case generateChallenge (\<lambda>bs. []) 1000 (replicate 8 0) (replicate 32 1)
           (Response True (Some ''00'')) 1001 Map.empty ''example.com'' of
      Inl e \<Rightarrow> False
    | Inr (store', ch) \<Rightarrow>
        challengeId ch = ''ch_rs_0000000000000000'' \<and> createdAt ch = 1001 \<and>
        toStringBase 36 (createdAt ch) = ''rt'')"
proof -
  have ne: "replicate 32 (1 :: byte) \<noteq> []" by simp
  have rr: "getRegistryRoot (\<lambda>bs. []) (Response True (Some ''00'')) = Some ''00''"
    by (simp add: getRegistryRoot_def)
  have a: "toStringBase 36 1000 = ''rs''" "toStringBase 36 1001 = ''rt''"
    by (simp_all add: toStringBase.simps digitChar_def)
  have b: "bytesToHex (replicate 8 0) = ''0000000000000000''"
    by (simp add: replicate8 bytesToHex_def digitChar_def)
  show ?thesis
    unfolding generateChallenge_result [OF ne rr] Let_def
    by (simp add: a b)
qed

section \<open>Properties of public-parameter verification\<close>

lemma basePoint_bytes:
  "hexToBytes basePointHex =
     [151, 241, 211, 167, 49, 151, 215, 148, 38, 149, 99, 140, 79, 169, 172, 15, 195,
      104, 140, 79, 151, 116, 185, 5, 161, 78, 58, 63, 23, 27, 172, 88, 108, 85, 232,
      63, 249, 122, 26, 239, 251, 58, 240, 10, 219, 34, 198, 187]"
  by (simp add: basePointHex_def isHexDigit_def hexDigitVal_def)

lemma basePoint_value:
  "valueBE [151, 241, 211, 167, 49, 151, 215, 148, 38, 149, 99, 140, 79, 169, 172, 15, 195,
      104, 140, 79, 151, 116, 185, 5, 161, 78, 58, 63, 23, 27, 172, 88, 108, 85, 232,
      63, 249, 122, 26, 239, 251, 58, 240, 10, 219, 34, 198, 187] =
     23386419851910626622920608365254884660501490431015269743868725080811468478126981624543188075118803641951418180617915"
  by (simp add: valueBE_def)

lemma basePoint_accepted:
  "compressedFormat (hexToBytes basePointHex) =
     Some (3685416753713387016781088315183077757961620795782546409894578378688607592378376318836054947676345821548104185464507, False)"
  unfolding basePoint_bytes
  by (simp add: compressedFormat_def basePoint_value BLS_BASE_FIELD_PRIME_def)

lemma verifyParameters_iff:
  "verifyParameters deserialize params =
     (deserialize (hexToBytes (generatorG params)) \<noteq> None \<and>
      length (attributeGenerators params) = maxAttributes params \<and>
      list_all (\<lambda>h. deserialize (hexToBytes h) \<noteq> None) (attributeGenerators params) \<and>
      deserialize (hexToBytes (blindingGenerator params)) \<noteq> None)"
  by (auto simp add: verifyParameters_def list_ex_iff list_all_iff split: option.splits)

text \<open>
  C8, amended. For every decoder in the place of the library's, \<open>verifyParameters\<close>
  returns true exactly when the base generator, every attribute generator and the blinding
  generator are accepted by the decoder and the number of attribute generators equals
  \<open>maxAttributes\<close>. Generators are not compared: whenever a parameter set is accepted, so
  is the set in which every attribute generator and the blinding generator are replaced
  by the base generator.
\<close>

theorem verifyParameters_accepts_equal_generators:
  "verifyParameters deserialize params =
     (deserialize (hexToBytes (generatorG params)) \<noteq> None \<and>
      length (attributeGenerators params) = maxAttributes params \<and>
      list_all (\<lambda>h. deserialize (hexToBytes h) \<noteq> None) (attributeGenerators params) \<and>
      deserialize (hexToBytes (blindingGenerator params)) \<noteq> None) \<and>
   (verifyParameters deserialize params \<longrightarrow>
      verifyParameters deserialize
        (params \<lparr> attributeGenerators := replicate (maxAttributes params) (generatorG params),
                  blindingGenerator := generatorG params \<rparr>))"
proof (intro conjI impI)
  show "verifyParameters deserialize params =
     (deserialize (hexToBytes (generatorG params)) \<noteq> None \<and>
      length (attributeGenerators params) = maxAttributes params \<and>
      list_all (\<lambda>h. deserialize (hexToBytes h) \<noteq> None) (attributeGenerators params) \<and>
      deserialize (hexToBytes (blindingGenerator params)) \<noteq> None)"
    by (rule verifyParameters_iff)
next
  assume "verifyParameters deserialize params"
  then have "deserialize (hexToBytes (generatorG params)) \<noteq> None"
    by (simp add: verifyParameters_iff)
  then show "verifyParameters deserialize
        (params \<lparr> attributeGenerators := replicate (maxAttributes params) (generatorG params),
                  blindingGenerator := generatorG params \<rparr>)"
    by (simp add: verifyParameters_iff list_all_iff)
qed

theorem verifyParameters_accepts_equal_generators_witness:
  "verifyParameters compressedFormat basePointParameters \<and>
   verifyParameters compressedFormat
     (basePointParameters \<lparr> attributeGenerators :=
          replicate (maxAttributes basePointParameters) (generatorG basePointParameters),
        blindingGenerator := generatorG basePointParameters \<rparr>)"
proof -
  have a: "verifyParameters compressedFormat basePointParameters"
    by (simp add: verifyParameters_def basePointParameters_def basePoint_accepted)
  from verifyParameters_accepts_equal_generators [of compressedFormat basePointParameters]
  have "verifyParameters compressedFormat basePointParameters \<longrightarrow>
    verifyParameters compressedFormat
     (basePointParameters \<lparr> attributeGenerators :=
          replicate (maxAttributes basePointParameters) (generatorG basePointParameters),
        blindingGenerator := generatorG basePointParameters \<rparr>)"
    by (rule conjunct2)
  from this a have "verifyParameters compressedFormat
     (basePointParameters \<lparr> attributeGenerators :=
          replicate (maxAttributes basePointParameters) (generatorG basePointParameters),
        blindingGenerator := generatorG basePointParameters \<rparr>)"
    by (rule mp)
  with a show ?thesis by (rule conjI)
qed

text \<open>
  C8, as the specification states it: a parameter set with two equal generators is
  rejected. The parameter set all of whose generators are the base point of the curve is
  accepted.
\<close>

theorem verifyParameters_equal_generators_counterexample:
  "attributeGenerators basePointParameters ! 0 = attributeGenerators basePointParameters ! 1 \<and>
   generatorG basePointParameters = blindingGenerator basePointParameters \<and>
   verifyParameters compressedFormat basePointParameters = True"
  by (simp add: verifyParameters_def basePointParameters_def basePoint_accepted)

section \<open>Properties of the commitment protocol\<close>

lemma digitChar_cases:
  assumes "(d::nat) < 16"
  shows "d \<in> {0,1,2,3,4,5,6,7,8,9,10,11,12,13,14,15}"
  using assms by (simp; arith)

lemma hexDigitVal_digitChar: "d < 16 \<Longrightarrow> hexDigitVal (digitChar d) = d"
  using digitChar_cases [of d] by (auto simp add: hexDigitVal_def digitChar_def)

lemma digitChar_isHex: "d < 16 \<Longrightarrow> isHexDigit (digitChar d)"
  using digitChar_cases [of d] by (auto simp add: isHexDigit_def digitChar_def)

lemma toStringBase16_lowerHex: "list_all lowerHex (toStringBase 16 n)"
proof (induction "16 :: nat" n rule: toStringBase.induct)
  case (1 n)
  show ?case
  proof (cases "n < 16")
    case True
    then show ?thesis by (subst toStringBase.simps) (auto simp add: lowerHex_def)
  next
    case False
    have "lowerHex (digitChar (n mod 16))"
      unfolding lowerHex_def by (rule exI [of _ "n mod 16"]) simp
    with 1 False show ?thesis by (subst toStringBase.simps) simp
  qed
qed

lemma hexValue_snoc: "hexValue (s @ [c]) = 16 * hexValue s + hexDigitVal c"
  by (simp add: hexValue_def)

lemma hexValue_toStringBase: "hexValue (toStringBase 16 n) = n"
proof (induction "16 :: nat" n rule: toStringBase.induct)
  case (1 n)
  show ?case
  proof (cases "n < 16")
    case True
    then show ?thesis
      by (subst toStringBase.simps) (simp add: hexValue_def hexDigitVal_digitChar)
  next
    case False
    with 1 show ?thesis
      by (subst toStringBase.simps) (simp add: hexValue_snoc hexDigitVal_digitChar)
  qed
qed

lemma foldl_hex_zeros:
  "foldl (\<lambda>acc c. 16 * acc + hexDigitVal c) 0 (replicate k CHR ''0'') = 0"
  by (induction k) (simp_all add: hexDigitVal_def)

lemma hexValue_padded: "hexValue (replicate k CHR ''0'' @ s) = hexValue s"
  by (simp add: hexValue_def foldl_hex_zeros)

lemma byte_of_digits:
  assumes "a < 16" and "b < 16"
  shows "unat (of_nat (16 * a + b) :: byte) = 16 * a + b"
proof -
  have "16 * a + b < 256" using assms by simp
  then show ?thesis by (subst unat_of_nat) simp
qed

lemma bytesToHex_hexToBytes:
  "list_all lowerHex s \<Longrightarrow> even (length s) \<Longrightarrow> bytesToHex (hexToBytes s) = s"
proof (induction s rule: hexToBytes.induct)
  case (1 a b rest)
  from 1(2) obtain x y where xy: "x < 16" "y < 16" "a = digitChar x" "b = digitChar y"
    by (auto simp add: lowerHex_def)
  have rest: "bytesToHex (hexToBytes rest) = rest" using 1 xy by (simp add: digitChar_isHex)
  have "bytesToHex (of_nat (16 * x + y) # hexToBytes rest) = a # b # rest"
    using xy rest byte_of_digits [OF xy(1,2)] by (simp add: bytesToHex_def)
  then show ?case using xy by (simp add: digitChar_isHex hexDigitVal_digitChar)
qed (simp_all add: bytesToHex_def)

lemma jsRem_nonneg: "0 \<le> a \<Longrightarrow> jsRem a FIELD_MODULUS = a mod FIELD_MODULUS"
  by (simp add: jsRem_def)

lemma lowerHex_isHex: "lowerHex c \<Longrightarrow> isHexDigit c"
  by (auto simp add: lowerHex_def digitChar_isHex)

lemma bytesToScalar_scalarToBytes:
  assumes "0 \<le> c" and "c < FIELD_MODULUS"
  shows "bytesToScalar (scalarToBytes c) = Some c"
proof -
  let ?s = "padStart 64 CHR ''0'' (toStringBase 16 (nat c))"
  have "nat c < 16 ^ 64" using assms by (simp add: FIELD_MODULUS_def)
  then have len: "length (toStringBase 16 (nat c)) \<le> 64"
    by (intro toStringBase_length) simp_all
  then have l64: "length ?s = 64" by (simp add: padStart_def)
  have "lowerHex CHR ''0''"
    unfolding lowerHex_def by (rule exI [of _ 0]) (simp add: digitChar_def)
  then have low: "list_all lowerHex ?s"
    using toStringBase16_lowerHex [of "nat c"]
    by (auto simp add: padStart_def list_all_iff)
  have rt: "bytesToHex (hexToBytes ?s) = ?s"
    using bytesToHex_hexToBytes [OF low] l64 by simp
  have hex: "list_all isHexDigit ?s" using low by (auto simp add: list_all_iff lowerHex_isHex)
  have ne: "?s \<noteq> []" using l64 by auto
  have val: "hexValue ?s = nat c"
    by (simp add: padStart_def hexValue_padded hexValue_toStringBase)
  show ?thesis
    using assms rt val bigIntOfHex_hex [OF ne hex]
    by (simp add: bytesToScalar_def scalarToBytes_def bigIntToString16_def jsRem_nonneg)
qed

lemma valueBE_snoc: "valueBE (bs @ [b]) = 256 * valueBE bs + unat b"
  by (simp add: valueBE_def)

lemma bytesBE_length [simp]: "length (bytesBE n x) = n"
  by (induction n arbitrary: x) simp_all

lemma valueBE_bytesBE: "x < 256 ^ n \<Longrightarrow> valueBE (bytesBE n x) = x"
proof (induction n arbitrary: x)
  case 0
  then show ?case by (simp add: valueBE_def)
next
  case (Suc n)
  have "x div 256 < 256 ^ n" using Suc.prems by (simp add: less_mult_imp_div_less mult.commute)
  from Suc.IH [OF this] show ?case
    by (simp add: valueBE_snoc unat_of_nat)
qed

lemma G1_deserialize_serialize:
  "G1_deserialize (G1_serialize P) = Some (BaseTimes (dlog P mod FIELD_MODULUS))"
proof -
  let ?x = "nat (dlog P mod FIELD_MODULUS)"
  have r: "0 \<le> dlog P mod FIELD_MODULUS" "dlog P mod FIELD_MODULUS < FIELD_MODULUS"
    by (simp_all add: FIELD_MODULUS_def)
  then have "int ?x < 256 ^ 48" by (simp add: FIELD_MODULUS_def)
  then have "?x < 256 ^ 48" by (metis of_nat_less_iff of_nat_numeral of_nat_power)
  from valueBE_bytesBE [OF this] r show ?thesis
    by (simp add: G1_deserialize_def G1_serialize_def)
qed

lemma constantTimeEqual_refl: "constantTimeEqual a a"
proof -
  have "fold (\<lambda>(x, y) result. or result (xor x y)) (zip a a) r = r" for r :: byte
    by (induction a arbitrary: r) simp_all
  then show ?thesis by (simp add: constantTimeEqual_def)
qed

lemma G1_multiply_some:
  "G1_multiply P s = Some Q \<longleftrightarrow>
     1 \<le> s \<and> s < FIELD_MODULUS \<and> Q = BaseTimes ((dlog P * s) mod FIELD_MODULUS)"
  by (auto simp add: G1_multiply_def)

lemma addMultiples_some:
  "addMultiples P Hs xs = Some R \<Longrightarrow>
     length xs \<le> length Hs \<and> (\<forall>x\<in>set xs. 1 \<le> x \<and> x < FIELD_MODULUS) \<and>
     dlog R mod FIELD_MODULUS = (dlog P + dot Hs xs) mod FIELD_MODULUS"
proof (induction P Hs xs arbitrary: R rule: addMultiples.induct)
  case (3 P H Hs x xs)
  from "3.prems" obtain Q where Q: "G1_multiply H x = Some Q"
    and rest: "addMultiples (G1_add P Q) Hs xs = Some R"
    by (auto split: option.splits)
  from Q have x: "1 \<le> x" "x < FIELD_MODULUS" and dQ: "dlog Q = (dlog H * x) mod FIELD_MODULUS"
    by (auto simp add: G1_multiply_some)
  from "3.IH" [OF Q rest] have ih: "length xs \<le> length Hs"
    "\<forall>x\<in>set xs. 1 \<le> x \<and> x < FIELD_MODULUS"
    "dlog R mod FIELD_MODULUS = (dlog (G1_add P Q) + dot Hs xs) mod FIELD_MODULUS"
    by simp_all
  have "(dlog (G1_add P Q) + dot Hs xs) mod FIELD_MODULUS =
        (dlog P + (dlog H * x + dot Hs xs)) mod FIELD_MODULUS"
    by (simp add: G1_add_def dQ mod_simps add.assoc)
  with ih x show ?case by simp
qed simp_all

lemma addMultiples_succeeds:
  "length xs \<le> length Hs \<Longrightarrow> \<forall>x\<in>set xs. 1 \<le> x \<and> x < FIELD_MODULUS \<Longrightarrow>
     \<exists>R. addMultiples P Hs xs = Some R"
  by (induction P Hs xs rule: addMultiples.induct) (simp_all add: G1_multiply_def)

lemma dot_responses:
  "length rs = length as \<Longrightarrow>
   dot Hs (map (\<lambda>(a, r). (r + (c * a) mod FIELD_MODULUS) mod FIELD_MODULUS) (zip as rs))
     mod FIELD_MODULUS =
   (dot Hs rs + c * dot Hs as) mod FIELD_MODULUS"
proof (induction Hs arbitrary: as rs)
  case Nil
  then show ?case by simp
next
  case (Cons H Hs)
  show ?case
  proof (cases as)
    case Nil
    with Cons.prems show ?thesis by simp
  next
    case (Cons a as')
    with Cons.prems obtain r' rs' where rs: "rs = r' # rs'" and len: "length rs' = length as'"
      by (cases rs) auto
    have "(dlog H * ((r' + (c * a) mod FIELD_MODULUS) mod FIELD_MODULUS)) mod FIELD_MODULUS =
          (dlog H * (r' + c * a)) mod FIELD_MODULUS"
      by (simp add: mod_mult_right_eq mod_add_right_eq)
    moreover have "dlog H * (r' + c * a) = dlog H * r' + c * (dlog H * a)"
      by (simp add: algebra_simps)
    ultimately have hd: "(dlog H * ((r' + (c * a) mod FIELD_MODULUS) mod FIELD_MODULUS)) mod FIELD_MODULUS =
              (dlog H * r' + c * (dlog H * a)) mod FIELD_MODULUS"
      by simp
    from mod_add_cong [OF hd Cons.IH [OF len]] show ?thesis
      by (simp add: Cons rs algebra_simps)
  qed
qed

lemma those_length: "those xs = Some ys \<Longrightarrow> length ys = length xs"
  by (induction xs arbitrary: ys) (auto split: option.splits)

lemma randomScalar_range:
  assumes "randomScalar bs = Some v"
  shows "0 \<le> v \<and> v < FIELD_MODULUS"
proof -
  from assms obtain n where "v = jsRem (int n) FIELD_MODULUS"
    by (auto simp add: randomScalar_def)
  then show ?thesis using jsRem_range [of "int n"] by simp
qed

lemma bytesToScalar_range:
  assumes "bytesToScalar bs = Some v"
  shows "0 \<le> v \<and> v < FIELD_MODULUS"
proof -
  from assms obtain n where "v = jsRem (int n) FIELD_MODULUS"
    by (auto simp add: bytesToScalar_def)
  then show ?thesis using jsRem_range [of "int n"] by simp
qed

lemma G1_serialize_cong:
  "dlog P mod FIELD_MODULUS = dlog Q mod FIELD_MODULUS \<Longrightarrow> G1_serialize P = G1_serialize Q"
  by (simp add: G1_serialize_def)

lemma mod_range: "0 \<le> a mod FIELD_MODULUS \<and> a mod FIELD_MODULUS < FIELD_MODULUS"
  by (simp add: FIELD_MODULUS_def)

lemma addMod_mulMod:
  assumes "0 \<le> x" and "0 \<le> c" and "0 \<le> a"
  shows "addMod x (mulMod c a) = (x + (c * a) mod FIELD_MODULUS) mod FIELD_MODULUS"
proof -
  have "0 \<le> c * a" using assms by simp
  then have m: "mulMod c a = (c * a) mod FIELD_MODULUS" by (simp add: mulMod_def jsRem_def)
  have "0 \<le> (c * a) mod FIELD_MODULUS" using mod_range by simp
  then have "0 \<le> x + (c * a) mod FIELD_MODULUS" using assms(1) by simp
  then show ?thesis by (simp add: m addMod_def jsRem_def)
qed

lemma add_chain:
  assumes "dlog X1 mod FIELD_MODULUS = (dlog X0 + d) mod FIELD_MODULUS"
    and "dlog X0 = (g * a) mod FIELD_MODULUS" and "dlog B = (h * b) mod FIELD_MODULUS"
  shows "dlog (G1_add X1 B) mod FIELD_MODULUS = (g * a + d + h * b) mod FIELD_MODULUS"
proof -
  have "dlog (G1_add X1 B) mod FIELD_MODULUS = (dlog X1 + dlog B) mod FIELD_MODULUS"
    by (simp add: G1_add_def)
  also have "\<dots> = (dlog X1 mod FIELD_MODULUS + dlog B mod FIELD_MODULUS) mod FIELD_MODULUS"
    by (simp only: mod_add_eq)
  also have "\<dots> = ((dlog X0 + d) mod FIELD_MODULUS + (h * b) mod FIELD_MODULUS) mod FIELD_MODULUS"
    by (simp only: assms(1) assms(3) mod_mod_trivial)
  also have "\<dots> = ((dlog X0 + d) + h * b) mod FIELD_MODULUS"
    by (simp only: mod_add_eq)
  also have "\<dots> = ((dlog X0 mod FIELD_MODULUS + d mod FIELD_MODULUS) mod FIELD_MODULUS
       + (h * b) mod FIELD_MODULUS) mod FIELD_MODULUS"
    by (simp only: mod_add_eq)
  also have "\<dots> = (((g * a) mod FIELD_MODULUS + d mod FIELD_MODULUS) mod FIELD_MODULUS
       + (h * b) mod FIELD_MODULUS) mod FIELD_MODULUS"
    by (simp only: assms(2) mod_mod_trivial)
  also have "\<dots> = ((g * a + d) + h * b) mod FIELD_MODULUS"
    by (simp only: mod_add_eq)
  finally show ?thesis .
qed

lemma scaled_response:
  "(g * ((x + (c * m) mod FIELD_MODULUS) mod FIELD_MODULUS)) mod FIELD_MODULUS =
   (g * x + c * (g * m)) mod FIELD_MODULUS"
proof -
  have "(g * ((x + (c * m) mod FIELD_MODULUS) mod FIELD_MODULUS)) mod FIELD_MODULUS =
        (g * (x + c * m)) mod FIELD_MODULUS"
    by (simp only: mod_mult_right_eq mod_add_right_eq)
  moreover have "g * (x + c * m) = g * x + c * (g * m)"
    by (simp only: distrib_left mult.left_commute)
  ultimately show ?thesis by (simp only:)
qed

lemma negated_multiple:
  assumes "dlog Cp mod FIELD_MODULUS = v mod FIELD_MODULUS"
    and "dlog Cc = (dlog Cp * c) mod FIELD_MODULUS"
  shows "dlog (G1_negate Cc) mod FIELD_MODULUS = (- (c * v)) mod FIELD_MODULUS"
proof -
  have "(dlog Cp * c) mod FIELD_MODULUS = (v * c) mod FIELD_MODULUS"
    by (intro mod_mult_cong assms(1) refl)
  then have "(- ((dlog Cp * c) mod FIELD_MODULUS)) mod FIELD_MODULUS = (- (v * c)) mod FIELD_MODULUS"
    by (metis mod_minus_eq)
  then show ?thesis by (simp only: G1_negate_def dlog.simps assms(2) mod_mod_trivial mult.commute)
qed

lemma add_cong_points:
  assumes "dlog U mod FIELD_MODULUS = a mod FIELD_MODULUS"
    and "dlog N mod FIELD_MODULUS = n mod FIELD_MODULUS"
  shows "dlog (G1_add U N) mod FIELD_MODULUS = (a + n) mod FIELD_MODULUS"
proof -
  have "dlog (G1_add U N) mod FIELD_MODULUS = (dlog U + dlog N) mod FIELD_MODULUS"
    by (simp add: G1_add_def)
  also have "\<dots> = (a + n) mod FIELD_MODULUS"
    by (intro mod_add_cong assms)
  finally show ?thesis .
qed

lemma schnorr_identity:
  "((g * x + c * (g * m)) + (dr + c * da) + (h * y + c * (h * r))) + (- (c * (g * m + da + h * r)))
     = g * x + dr + h * (y :: int)"
  by (simp add: algebra_simps)

lemma createCommitment_some:
  assumes "createCommitment generators maxAttrs ms attrs (Some r) rnd = Some (C, r')" and "r \<noteq> 0"
  shows "\<exists>C0 C1 B. G1_multiply (genG generators) ms = Some C0 \<and>
           addMultiples C0 (genAttributes generators) attrs = Some C1 \<and>
           G1_multiply (genBlinding generators) r = Some B \<and>
           C = G1_serialize (G1_add C1 B) \<and> r' = r \<and> length attrs \<le> maxAttrs"
  using assms by (auto simp add: createCommitment_def split: if_splits option.splits)

lemma generateProof_some:
  assumes "generateProof generators sha256 ms attrs r C ctx rndMs rndAttr rndBlind nonceBytes = Some prf"
  shows "\<exists>r_ms r_attrs r_blind T0 T1 bT c.
           randomScalar rndMs = Some r_ms \<and>
           those (map (\<lambda>i. randomScalar (rndAttr i)) [0..<length attrs]) = Some r_attrs \<and>
           randomScalar rndBlind = Some r_blind \<and>
           G1_multiply (genG generators) r_ms = Some T0 \<and>
           addMultiples T0 (genAttributes generators) r_attrs = Some T1 \<and>
           G1_multiply (genBlinding generators) r_blind = Some bT \<and>
           computeChallenge sha256 C (G1_serialize (G1_add T1 bT)) ctx nonceBytes = Some c \<and>
           prf = \<lparr> zkCommitment = C, zkT = G1_serialize (G1_add T1 bT),
                   zkChallenge = scalarToBytes c,
                   zkResponses = [addMod r_ms (mulMod c ms)] @
                      map (\<lambda>(attr, r_attr). addMod r_attr (mulMod c attr)) (zip attrs r_attrs) @
                      [addMod r_blind (mulMod c r)],
                   zkNonce = nonceBytes \<rparr>"
  using assms by (auto simp add: generateProof_def Let_def split: option.splits)

lemma responses_map:
  assumes "\<forall>x\<in>set as. 0 \<le> x" and "\<forall>x\<in>set rs. 0 \<le> x" and "0 \<le> c"
  shows "map (\<lambda>(attr, r_attr). addMod r_attr (mulMod c attr)) (zip as rs) =
         map (\<lambda>(a, x). (x + (c * a) mod FIELD_MODULUS) mod FIELD_MODULUS) (zip as rs)"
  using assms(1,2)
proof (induction as arbitrary: rs)
  case Nil
  show ?case by simp
next
  case (Cons a as)
  show ?case
  proof (cases rs)
    case Nil
    then show ?thesis by simp
  next
    case (Cons x xs)
    have "0 \<le> a" using Cons.prems(1) by simp
    moreover have "0 \<le> x" using Cons.prems(2) Cons by simp
    ultimately have h: "addMod x (mulMod c a) = (x + (c * a) mod FIELD_MODULUS) mod FIELD_MODULUS"
      using addMod_mulMod assms(3) by blast
    have "\<forall>x\<in>set as. 0 \<le> x" using Cons.prems(1) by simp
    moreover have "\<forall>x\<in>set xs. 0 \<le> x" using Cons.prems(2) Cons by simp
    ultimately have t: "map (\<lambda>(attr, r_attr). addMod r_attr (mulMod c attr)) (zip as xs) =
         map (\<lambda>(a, x). (x + (c * a) mod FIELD_MODULUS) mod FIELD_MODULUS) (zip as xs)"
      by (rule Cons.IH)
    show ?thesis unfolding Cons by (simp only: zip_Cons_Cons list.map prod.case h t)
  qed
qed

text \<open>
  C1, amended. When \<open>createCommitment\<close> is given a blinding factor \<open>r\<close> other than 0 and
  returns the commitment \<open>C\<close>, and \<open>generateProof\<close> run on the same master secret,
  attributes, \<open>r\<close> and \<open>C\<close> returns a proof none of whose responses is 0 and whose
  challenge is not 0, then \<open>verifyProof\<close> accepts that proof for the same context and
  the number of attributes. This holds for every hash function in the place of SHA-256
  and every outcome of the random draws.
\<close>

theorem schnorr_round_trip:
  assumes C: "createCommitment generators maxAttrs ms attrs (Some r) rnd = Some (C, r')"
    and r: "r \<noteq> 0"
    and P: "generateProof generators sha256 ms attrs r C ctx rndMs rndAttr rndBlind nonceBytes
              = Some prf"
    and nz: "0 \<notin> set (zkResponses prf)"
    and cnz: "bytesToScalar (zkChallenge prf) \<noteq> Some 0"
  shows "CommitmentProtocol_verifyProof generators sha256 prf ctx (length attrs) = True"
proof -
  let ?q = FIELD_MODULUS
  let ?G = "genG generators" and ?Hs = "genAttributes generators" and ?Hr = "genBlinding generators"
  from createCommitment_some [OF C r] obtain C0 C1 B where
    m0: "G1_multiply ?G ms = Some C0" and am: "addMultiples C0 ?Hs attrs = Some C1" and
    mb: "G1_multiply ?Hr r = Some B" and Ceq: "C = G1_serialize (G1_add C1 B)"
    by blast
  from generateProof_some [OF P] obtain r_ms r_attrs r_blind T0 T1 bT c where
    rs: "those (map (\<lambda>i. randomScalar (rndAttr i)) [0..<length attrs]) = Some r_attrs" and
    t0: "G1_multiply ?G r_ms = Some T0" and amt: "addMultiples T0 ?Hs r_attrs = Some T1" and
    tb: "G1_multiply ?Hr r_blind = Some bT" and
    cc: "computeChallenge sha256 C (G1_serialize (G1_add T1 bT)) ctx nonceBytes = Some c" and
    pdef: "prf = \<lparr> zkCommitment = C, zkT = G1_serialize (G1_add T1 bT),
                   zkChallenge = scalarToBytes c,
                   zkResponses = [addMod r_ms (mulMod c ms)] @
                      map (\<lambda>(attr, r_attr). addMod r_attr (mulMod c attr)) (zip attrs r_attrs) @
                      [addMod r_blind (mulMod c r)],
                   zkNonce = nonceBytes \<rparr>"
    by blast
  \<comment> \<open>ranges of the scalars\<close>
  have ms_r: "1 \<le> ms" "ms < ?q" and dC0: "dlog C0 = (dlog ?G * ms) mod ?q"
    using m0 by (auto simp add: G1_multiply_some)
  have r_r: "1 \<le> r" "r < ?q" and dB: "dlog B = (dlog ?Hr * r) mod ?q"
    using mb by (auto simp add: G1_multiply_some)
  have rms_r: "1 \<le> r_ms" "r_ms < ?q" and dT0: "dlog T0 = (dlog ?G * r_ms) mod ?q"
    using t0 by (auto simp add: G1_multiply_some)
  have rb_r: "1 \<le> r_blind" "r_blind < ?q" and dbT: "dlog bT = (dlog ?Hr * r_blind) mod ?q"
    using tb by (auto simp add: G1_multiply_some)
  from addMultiples_some [OF am] have attrs_len: "length attrs \<le> length ?Hs"
    and attrs_r: "\<forall>x\<in>set attrs. 1 \<le> x \<and> x < ?q"
    and dC1: "dlog C1 mod ?q = (dlog C0 + dot ?Hs attrs) mod ?q" by simp_all
  from addMultiples_some [OF amt] have rattrs_r: "\<forall>x\<in>set r_attrs. 1 \<le> x \<and> x < ?q"
    and dT1: "dlog T1 mod ?q = (dlog T0 + dot ?Hs r_attrs) mod ?q" by simp_all
  have len: "length r_attrs = length attrs" using those_length [OF rs] by simp
  from cc have c_r: "0 \<le> c" "c < ?q"
    using bytesToScalar_range by (auto simp add: computeChallenge_def)
  \<comment> \<open>the responses\<close>
  define s_ms where "s_ms = (r_ms + (c * ms) mod ?q) mod ?q"
  define s_blind where "s_blind = (r_blind + (c * r) mod ?q) mod ?q"
  define s_attrs where
    "s_attrs = map (\<lambda>(a, x). (x + (c * a) mod ?q) mod ?q) (zip attrs r_attrs)"
  have nn: "0 \<le> r_ms" "0 \<le> ms" "0 \<le> r_blind" "0 \<le> r"
    using rms_r(1) ms_r(1) rb_r(1) r_r(1) by linarith+
  have e1: "addMod r_ms (mulMod c ms) = s_ms"
    unfolding s_ms_def by (rule addMod_mulMod [OF nn(1) c_r(1) nn(2)])
  have e2: "addMod r_blind (mulMod c r) = s_blind"
    unfolding s_blind_def by (rule addMod_mulMod [OF nn(3) c_r(1) nn(4)])
  have e3: "map (\<lambda>(attr, r_attr). addMod r_attr (mulMod c attr)) (zip attrs r_attrs) = s_attrs"
    unfolding s_attrs_def
  proof (rule responses_map [OF _ _ c_r(1)])
    show "\<forall>x\<in>set attrs. 0 \<le> x"
    proof
      fix x assume "x \<in> set attrs"
      with attrs_r have "1 \<le> x" by blast
      then show "0 \<le> x" by linarith
    qed
    show "\<forall>x\<in>set r_attrs. 0 \<le> x"
    proof
      fix x assume "x \<in> set r_attrs"
      with rattrs_r have "1 \<le> x" by blast
      then show "0 \<le> x" by linarith
    qed
  qed
  have resp: "zkResponses prf = [s_ms] @ s_attrs @ [s_blind]"
    by (simp add: pdef e1 e2 e3)
  have sl: "length s_attrs = length attrs" by (simp add: s_attrs_def len)
  from nz resp have nz': "s_ms \<noteq> 0" "s_blind \<noteq> 0" "0 \<notin> set s_attrs" by auto
  have "0 \<le> s_ms \<and> s_ms < ?q" unfolding s_ms_def by (rule mod_range)
  with nz'(1) have sms_r: "1 \<le> s_ms" "s_ms < ?q" by linarith+
  have "0 \<le> s_blind \<and> s_blind < ?q" unfolding s_blind_def by (rule mod_range)
  with nz'(2) have sb_r: "1 \<le> s_blind" "s_blind < ?q" by linarith+
  have sa_r: "\<forall>x\<in>set s_attrs. 1 \<le> x \<and> x < ?q"
  proof
    fix x assume x: "x \<in> set s_attrs"
    then obtain p where "x = (snd p + (c * fst p) mod ?q) mod ?q"
      unfolding s_attrs_def by (auto simp add: case_prod_unfold)
    then have "0 \<le> x \<and> x < ?q" using mod_range by (simp only:)
    moreover have "x \<noteq> 0" using nz'(3) x by blast
    ultimately show "1 \<le> x \<and> x < ?q" by linarith
  qed
  \<comment> \<open>the verifier's computation\<close>
  have pc: "bytesToScalar (zkChallenge prf) = Some c"
    using bytesToScalar_scalarToBytes [OF c_r] by (simp add: pdef)
  with cnz have c1: "1 \<le> c" using c_r by (cases "c = 0") auto
  obtain U0 where u0: "G1_multiply ?G s_ms = Some U0" and dU0: "dlog U0 = (dlog ?G * s_ms) mod ?q"
    using sms_r by (simp add: G1_multiply_def)
  from addMultiples_succeeds [of s_attrs ?Hs U0] sa_r sl attrs_len
  obtain U1 where u1: "addMultiples U0 ?Hs s_attrs = Some U1" by auto
  from addMultiples_some [OF u1] have dU1: "dlog U1 mod ?q = (dlog U0 + dot ?Hs s_attrs) mod ?q"
    by simp
  obtain uB where ub: "G1_multiply ?Hr s_blind = Some uB" and duB: "dlog uB = (dlog ?Hr * s_blind) mod ?q"
    using sb_r by (simp add: G1_multiply_def)
  let ?Cp = "BaseTimes (dlog (G1_add C1 B) mod ?q)"
  have dz: "G1_deserialize (zkCommitment prf) = Some ?Cp"
    by (simp add: pdef Ceq G1_deserialize_serialize)
  obtain Cc where cm: "G1_multiply ?Cp c = Some Cc" and dCc: "dlog Cc = (dlog ?Cp * c) mod ?q"
    using c1 c_r by (simp add: G1_multiply_def)
  let ?T' = "G1_add (G1_add U1 uB) (G1_negate Cc)"
  \<comment> \<open>the recomputed point is the prover's\<close>
  let ?g = "dlog ?G" and ?h = "dlog ?Hr"
  have dotS: "dot ?Hs s_attrs mod ?q = (dot ?Hs r_attrs + c * dot ?Hs attrs) mod ?q"
    unfolding s_attrs_def using dot_responses [of r_attrs attrs ?Hs c] len by simp
  have cong_C: "dlog ?Cp mod ?q = (?g * ms + dot ?Hs attrs + ?h * r) mod ?q"
    using add_chain [OF dC1 dC0 dB] by simp
  have cong_T: "dlog (G1_add T1 bT) mod ?q = (?g * r_ms + dot ?Hs r_attrs + ?h * r_blind) mod ?q"
    by (rule add_chain [OF dT1 dT0 dbT])
  have cong_U: "dlog (G1_add U1 uB) mod ?q = (?g * s_ms + dot ?Hs s_attrs + ?h * s_blind) mod ?q"
    by (rule add_chain [OF dU1 dU0 duB])
  have sms_c: "(?g * s_ms) mod ?q = (?g * r_ms + c * (?g * ms)) mod ?q"
    unfolding s_ms_def by (rule scaled_response)
  have sb_c: "(?h * s_blind) mod ?q = (?h * r_blind + c * (?h * r)) mod ?q"
    unfolding s_blind_def by (rule scaled_response)
  have sumS: "(?g * s_ms + dot ?Hs s_attrs + ?h * s_blind) mod ?q =
     ((?g * r_ms + c * (?g * ms)) + (dot ?Hs r_attrs + c * dot ?Hs attrs) +
      (?h * r_blind + c * (?h * r))) mod ?q"
    by (intro mod_add_cong sms_c dotS sb_c)
  have negC: "dlog (G1_negate Cc) mod ?q = (- (c * (?g * ms + dot ?Hs attrs + ?h * r))) mod ?q"
    by (rule negated_multiple [OF cong_C dCc])
  have "dlog ?T' mod ?q =
     (((?g * r_ms + c * (?g * ms)) + (dot ?Hs r_attrs + c * dot ?Hs attrs) +
      (?h * r_blind + c * (?h * r))) + (- (c * (?g * ms + dot ?Hs attrs + ?h * r)))) mod ?q"
    by (rule add_cong_points [OF trans [OF cong_U sumS] negC])
  also have "\<dots> = (?g * r_ms + dot ?Hs r_attrs + ?h * r_blind) mod ?q"
    by (simp only: schnorr_identity)
  finally have "dlog ?T' mod ?q = dlog (G1_add T1 bT) mod ?q"
    by (simp only: cong_T)
  then have ser: "G1_serialize ?T' = G1_serialize (G1_add T1 bT)"
    by (rule G1_serialize_cong)
  \<comment> \<open>so the challenge is recomputed from the same bytes\<close>
  have idx: "zkResponses prf ! 0 = s_ms"
    "take (length attrs) (drop 1 (zkResponses prf)) = s_attrs"
    "zkResponses prf ! (length (zkResponses prf) - 1) = s_blind"
    using sl by (simp_all add: resp nth_append)
  have zc: "zkCommitment prf = C" "zkNonce prf = nonceBytes" by (simp_all add: pdef)
  have dz': "G1_deserialize C = Some ?Cp" using dz by (simp only: zc)
  have "recomputeChallenge generators sha256 prf ctx (length attrs) = Some (scalarToBytes c)"
    unfolding recomputeChallenge_def Let_def idx
    by (simp add: pc u0 u1 ub dz' cm ser zc cc)
  moreover have "length (zkResponses prf) = 1 + length attrs + 1" by (simp add: resp sl)
  moreover have "zkChallenge prf = scalarToBytes c" by (simp add: pdef)
  ultimately show ?thesis
    by (simp add: CommitmentProtocol_verifyProof_def constantTimeEqual_refl)
qed

lemma bytesBE_zero: "bytesBE n 0 = replicate n 0"
  by (induction n) (simp_all add: replicate_append_same)

lemma bytesBE_small: "x < 256 \<Longrightarrow> bytesBE (Suc n) x = replicate n 0 @ [of_nat x]"
  by (simp add: bytesBE_zero)

lemma G1_serialize_small:
  assumes "0 \<le> x" and "x < 256"
  shows "G1_serialize (BaseTimes x) = replicate 47 0 @ [of_nat (nat x)]"
proof -
  have "x mod FIELD_MODULUS = x" using assms by (simp add: FIELD_MODULUS_def)
  moreover have "nat x < 256" using assms by simp
  moreover have "(48 :: nat) = Suc 47" by simp
  ultimately show ?thesis by (simp only: G1_serialize_def dlog.simps bytesBE_small)
qed

lemma scalarToBytes_demo:
  "scalarToBytes 1 = replicate 31 0 @ [1]" "scalarToBytes 254 = replicate 31 0 @ [254]"
  by (simp_all add: scalarToBytes_def bigIntToString16_def toStringBase.simps digitChar_def
      padStart_def isHexDigit_def hexDigitVal_def replicate_numeral_Cons)

lemma randomScalar_bytesToScalar: "randomScalar bs = bytesToScalar bs"
  by (simp add: randomScalar_def bytesToScalar_def)

lemma bytesToScalar_demo:
  "bytesToScalar (replicate 31 0 @ [1]) = Some 1"
  "bytesToScalar (replicate 31 0 @ [254]) = Some 254"
  using bytesToScalar_scalarToBytes [of 1] bytesToScalar_scalarToBytes [of 254]
  by (simp_all only: scalarToBytes_demo FIELD_MODULUS_def)

lemma drawOne_scalar: "randomScalar drawOne = Some 1"
  by (simp only: randomScalar_bytesToScalar drawOne_def bytesToScalar_demo)

lemma G1_demo:
  "G1_multiply (BaseTimes 1) 1 = Some (BaseTimes 1)"
  "G1_multiply (BaseTimes 2) 1 = Some (BaseTimes 2)"
  "G1_multiply (BaseTimes 3) 1 = Some (BaseTimes 3)"
  "G1_multiply (BaseTimes 1) 2 = Some (BaseTimes 2)"
  "G1_multiply (BaseTimes 2) 2 = Some (BaseTimes 4)"
  "G1_multiply (BaseTimes 3) 2 = Some (BaseTimes 6)"
  "G1_multiply (BaseTimes 6) 1 = Some (BaseTimes 6)"
  "G1_add (BaseTimes 1) (BaseTimes 2) = BaseTimes 3"
  "G1_add (BaseTimes 3) (BaseTimes 3) = BaseTimes 6"
  "G1_add (BaseTimes 2) (BaseTimes 4) = BaseTimes 6"
  "G1_add (BaseTimes 6) (BaseTimes 3) = BaseTimes 9"
  "G1_add (BaseTimes 6) (BaseTimes 6) = BaseTimes 12"
  "G1_add (BaseTimes 9) (G1_negate (BaseTimes 6)) = BaseTimes 3"
  "G1_add (BaseTimes 12) (G1_negate (BaseTimes 6)) = BaseTimes 6"
  by (simp_all add: G1_multiply_def G1_add_def G1_negate_def FIELD_MODULUS_def)

lemma G1_serialize_demo:
  "G1_serialize (BaseTimes 6) = replicate 47 0 @ [6]"
  "G1_serialize (BaseTimes 3) = replicate 47 0 @ [3]"
  by (simp_all add: G1_serialize_small)

lemma createCommitment_zero:
  "createCommitment schnorrGenerators 1 1 [1] (Some 0) drawOne = Some (schnorrCommitment, 1)"
  by (simp add: createCommitment_def schnorrGenerators_def drawOne_scalar G1_demo
      G1_serialize_demo schnorrCommitment_def)

lemma createCommitment_one:
  "createCommitment schnorrGenerators 1 1 [1] (Some 1) drawOne = Some (schnorrCommitment, 1)"
  by (simp add: createCommitment_def schnorrGenerators_def G1_demo
      G1_serialize_demo schnorrCommitment_def)

lemma label_sum: "sum_list (bytesOfString ''BBS_COMMITMENT_CHALLENGE_V1'') = 251"
  by (simp add: bytesOfString_def)

lemma toySha256_demo:
  "toySha256 (bytesOfString ''BBS_COMMITMENT_CHALLENGE_V1'' @ schnorrCommitment @
       (replicate 47 0 @ [6]) @ [] @ schnorrNonce) = replicate 31 0 @ [1]"
  "toySha256 (bytesOfString ''BBS_COMMITMENT_CHALLENGE_V1'' @ schnorrCommitment @
       (replicate 47 0 @ [3]) @ [] @ schnorrNonce) = replicate 31 0 @ [254]"
  by (simp_all add: toySha256_def label_sum schnorrCommitment_def schnorrNonce_def
      sum_list_replicate)

lemma computeChallenge_demo:
  "computeChallenge toySha256 schnorrCommitment (replicate 47 0 @ [6]) [] schnorrNonce = Some 1"
  "computeChallenge toySha256 schnorrCommitment (replicate 47 0 @ [3]) [] schnorrNonce = Some 254"
  by (simp_all only: computeChallenge_def toySha256_demo bytesToScalar_demo)

lemma responses_demo:
  "addMod 1 (mulMod 1 1) = 2" "addMod 1 (mulMod 1 0) = 1"
  by (simp_all add: addMod_def mulMod_def jsRem_def FIELD_MODULUS_def)

lemma generateProof_zero:
  "generateProof schnorrGenerators toySha256 1 [1] 0 schnorrCommitment []
     drawOne (\<lambda>i. drawOne) drawOne schnorrNonce = Some schnorrProofZero"
  by (simp add: generateProof_def schnorrGenerators_def drawOne_scalar G1_demo
      G1_serialize_demo computeChallenge_demo scalarToBytes_demo responses_demo
      schnorrProofZero_def)

lemma generateProof_one:
  "generateProof schnorrGenerators toySha256 1 [1] 1 schnorrCommitment []
     drawOne (\<lambda>i. drawOne) drawOne schnorrNonce = Some schnorrProofOne"
  by (simp add: generateProof_def schnorrGenerators_def drawOne_scalar G1_demo
      G1_serialize_demo computeChallenge_demo scalarToBytes_demo responses_demo
      schnorrProofOne_def)

lemma fold_or_xor_zero:
  assumes "length a = length b"
    and "fold (\<lambda>(x, y) result. or result (xor x y)) (zip a b) (r :: byte) = 0"
  shows "r = 0 \<and> a = b"
  using assms
proof (induction a b arbitrary: r rule: list_induct2)
  case Nil
  then show ?case by simp
next
  case (Cons x xs y ys)
  from Cons.prems have "fold (\<lambda>(x, y) result. or result (xor x y)) (zip xs ys) (or r (xor x y)) = 0"
    by simp
  from Cons.IH [OF this] have o: "or r (xor x y) = 0" and e: "xs = ys" by simp_all
  from o have "r = 0" and "xor x y = 0" by (simp_all add: or_eq_0_iff)
  then have "x = y" by (metis xor.left_neutral xor.assoc xor_self_eq xor.right_neutral)
  then show ?case using \<open>r = 0\<close> e by simp
qed

lemma constantTimeEqual_eq: "constantTimeEqual a b = (a = b)"
proof
  assume c: "constantTimeEqual a b"
  then have l: "length a = length b" by (simp add: constantTimeEqual_def split: if_splits)
  with c have "fold (\<lambda>(x, y) result. or result (xor x y)) (zip a b) (0 :: byte) = 0"
    by (simp add: constantTimeEqual_def)
  from fold_or_xor_zero [OF l this] show "a = b" by simp
next
  assume "a = b"
  then show "constantTimeEqual a b" by (simp add: constantTimeEqual_refl)
qed

lemma schnorrCommitment_point: "G1_deserialize schnorrCommitment = Some (BaseTimes 6)"
  using G1_deserialize_serialize [of "BaseTimes 6"]
  by (simp add: G1_serialize_demo schnorrCommitment_def FIELD_MODULUS_def)

lemma recomputeChallenge_zero:
  "recomputeChallenge schnorrGenerators toySha256 schnorrProofZero [] (Suc 0) =
     Some (replicate 31 0 @ [254])"
  unfolding recomputeChallenge_def Let_def
  by (simp add: schnorrProofZero_def schnorrGenerators_def bytesToScalar_demo G1_demo
      schnorrCommitment_point G1_serialize_demo computeChallenge_demo scalarToBytes_demo)

text \<open>
  C1, as the specification states it: the round trip succeeds for every blinding factor.
  For the blinding factor 0, \<open>createCommitment\<close> commits to a drawn scalar (here 1)
  while \<open>generateProof\<close> answers for 0, and \<open>verifyProof\<close> rejects the proof.
\<close>

theorem schnorr_zero_blinding_counterexample:
  "length [1 :: int] \<le> 1 \<and>
   createCommitment schnorrGenerators 1 1 [1] (Some 0) drawOne = Some (schnorrCommitment, 1) \<and>
   generateProof schnorrGenerators toySha256 1 [1] 0 schnorrCommitment []
     drawOne (\<lambda>i. drawOne) drawOne schnorrNonce = Some schnorrProofZero \<and>
   CommitmentProtocol_verifyProof schnorrGenerators toySha256 schnorrProofZero []
     (length [1 :: int]) = False"
proof -
  have "zkChallenge schnorrProofZero \<noteq> replicate 31 0 @ [254]"
    by (simp add: schnorrProofZero_def)
  then have v: "CommitmentProtocol_verifyProof schnorrGenerators toySha256 schnorrProofZero []
      (length [1 :: int]) = False"
    by (simp add: CommitmentProtocol_verifyProof_def recomputeChallenge_zero constantTimeEqual_eq)
  have l: "length [1 :: int] \<le> 1" by simp
  show ?thesis by (intro conjI l createCommitment_zero generateProof_zero v)
qed

theorem schnorr_round_trip_witness:
  "createCommitment schnorrGenerators 1 1 [1] (Some 1) drawOne = Some (schnorrCommitment, 1) \<and>
   (1 :: int) \<noteq> 0 \<and>
   generateProof schnorrGenerators toySha256 1 [1] 1 schnorrCommitment []
     drawOne (\<lambda>i. drawOne) drawOne schnorrNonce = Some schnorrProofOne \<and>
   0 \<notin> set (zkResponses schnorrProofOne) \<and>
   bytesToScalar (zkChallenge schnorrProofOne) \<noteq> Some 0 \<and>
   CommitmentProtocol_verifyProof schnorrGenerators toySha256 schnorrProofOne []
     (length [1 :: int]) = True"
proof -
  have a: "0 \<notin> set (zkResponses schnorrProofOne)" by (simp add: schnorrProofOne_def)
  have b: "bytesToScalar (zkChallenge schnorrProofOne) \<noteq> Some 0"
    by (simp add: schnorrProofOne_def bytesToScalar_demo)
  have c: "(1 :: int) \<noteq> 0" by simp
  have v: "CommitmentProtocol_verifyProof schnorrGenerators toySha256 schnorrProofOne []
      (length [1 :: int]) = True"
    by (rule schnorr_round_trip [OF createCommitment_one c generateProof_one a b])
  show ?thesis by (intro conjI createCommitment_one c generateProof_one a b v)
qed

section \<open>Properties of the hybrid proof generator\<close>

lemma hexToBytes_bytesToHex: "hexToBytes (bytesToHex bs) = bs"
proof (induction bs)
  case Nil
  show ?case by (simp add: bytesToHex_def)
next
  case (Cons b bs)
  have lt: "unat b div 16 < 16" "unat b mod 16 < 16"
    using unsigned_less [of b, where ?'a = nat] by (simp_all add: div_less_iff_less_mult)
  have "bytesToHex (b # bs) = digitChar (unat b div 16) # digitChar (unat b mod 16) # bytesToHex bs"
    by (simp add: bytesToHex_def)
  moreover have "of_nat (16 * (unat b div 16) + unat b mod 16) = b"
    by simp
  ultimately show ?case
    using lt Cons by (simp add: digitChar_hex hexDigitVal_digitChar)
qed

lemma fromHex_toHex:
  assumes "0 \<le> v" and "v < FIELD_MODULUS"
  shows "fromHex (toHex v) = Some v"
  by (simp add: fromHex_def toHex_def hexToBytes_bytesToHex bytesToScalar_scalarToBytes assms)

lemma lowerHex_zero: "lowerHex CHR ''0''"
  unfolding lowerHex_def by (rule exI [of _ 0]) (simp add: digitChar_def)

lemma lowerHex_zeros: "list_all lowerHex (replicate k CHR ''0'')"
  by (induction k) (simp_all add: lowerHex_zero)

lemma toHex_padded:
  assumes "0 \<le> v" and "v < FIELD_MODULUS"
  shows "toHex v = padStart 64 CHR ''0'' (toStringBase 16 (nat v))"
proof -
  let ?s = "padStart 64 CHR ''0'' (toStringBase 16 (nat v))"
  have l: "length ?s = 64" using field_hex_length [OF assms] assms(1)
    by (simp add: bigIntToString16_def)
  have "list_all lowerHex ?s"
    by (simp add: padStart_def toStringBase16_lowerHex lowerHex_zeros)
  then have "bytesToHex (hexToBytes ?s) = ?s"
    by (rule bytesToHex_hexToBytes) (simp add: l)
  then show ?thesis using assms(1) by (simp add: toHex_def scalarToBytes_def bigIntToString16_def)
qed

lemma lowerHex_not_x: "lowerHex c \<Longrightarrow> c \<noteq> CHR ''x''"
proof
  assume "lowerHex c" and "c = CHR ''x''"
  then obtain d where "d < 16" and "CHR ''x'' = digitChar d" by (auto simp add: lowerHex_def)
  with digitChar_cases [of d] show False by (auto simp add: digitChar_def)
qed

lemma hexToDecimal_toHex:
  assumes "0 \<le> v" and "v < FIELD_MODULUS"
  shows "hexToDecimal (toHex v) = Some (toStringBase 10 (nat v))"
proof -
  let ?s = "padStart 64 CHR ''0'' (toStringBase 16 (nat v))"
  have l: "length ?s = 64" using field_hex_length [OF assms] assms(1)
    by (simp add: bigIntToString16_def)
  have lh: "list_all lowerHex ?s"
    by (simp add: padStart_def toStringBase16_lowerHex lowerHex_zeros)
  then have ih: "list_all isHexDigit ?s" by (simp add: list_all_iff lowerHex_isHex)
  have ne: "?s \<noteq> []" using l by auto
  obtain a b rest where s: "?s = a # b # rest" using l
    by (cases ?s; cases "tl ?s") auto
  with lh have "lowerHex b" by simp
  then have "b \<noteq> CHR ''x''" by (rule lowerHex_not_x)
  then have nx: "\<not> startsWith0x ?s" by (simp add: startsWith0x_def s)
  have "hexValue ?s = nat v" by (simp add: padStart_def hexValue_padded hexValue_toStringBase)
  then have "bigIntOfHex ?s = Some (nat v)" using bigIntOfHex_hex [OF ne ih] by simp
  then have "hexToDecimal ?s = Some (toStringBase 10 (nat v))"
    using nx by (simp add: hexToDecimal_def)
  then show ?thesis by (simp only: toHex_padded [OF assms])
qed

lemma zeros_bigInt: "bigIntOfHex (replicate 64 CHR ''0'') = Some 0"
proof -
  have "list_all isHexDigit (replicate 64 CHR ''0'')" by (simp add: list_all_iff isHexDigit_def)
  moreover have "replicate 64 CHR ''0'' \<noteq> []" by simp
  ultimately have "bigIntOfHex (replicate 64 CHR ''0'') = Some (hexValue (replicate 64 CHR ''0''))"
    by (intro bigIntOfHex_hex)
  then show ?thesis by (simp add: hexValue_def foldl_hex_zeros)
qed

lemma zeros_decimal: "hexToDecimal (replicate 64 CHR ''0'') = Some ''0''"
proof -
  have "take 2 (replicate 64 CHR ''0'') = ''00''" by (simp add: replicate_numeral_Cons)
  then have "\<not> startsWith0x (replicate 64 CHR ''0'')" by (simp add: startsWith0x_def)
  then show ?thesis
    by (simp add: hexToDecimal_def zeros_bigInt toStringBase.simps digitChar_def)
qed

lemma those_replicate: "those (replicate n (Some x)) = Some (replicate n x)"
  by (induction n) simp_all

lemma zeros_siblings:
  "those (map bigIntOfHex (replicate 20 (replicate 64 CHR ''0''))) = Some (replicate 20 0)"
  by (simp only: map_replicate zeros_bigInt those_replicate)

lemma chunk_hex:
  "bytesToHex (padded32 (bytesOfString ''example.com'')) =
     ''6578616d706c652e636f6d000000000000000000000000000000000000000000''"
  "bytesToHex (padded32 (bytesOfString ''cred-1'')) =
     ''637265642d310000000000000000000000000000000000000000000000000000''"
  by (simp_all add: bytesToHex_def padded32_def bytesOfString_def digitChar_def
      replicate_numeral_Cons)

lemma chunk_value:
  "hexValue ''6578616d706c652e636f6d000000000000000000000000000000000000000000'' = 45896291774552704631216227534719498003970641976714932209004241765476165746688"
  "hexValue ''637265642d310000000000000000000000000000000000000000000000000000'' = 44981092352263011380450356326379527875721346970416456706337891557585157357568"
  by (simp_all add: hexValue_def hexDigitVal_def)

lemma chunk_scalar:
  "bytesToScalar (padded32 (bytesOfString ''example.com'')) = Some 45896291774552704631216227534719498003970641976714932209004241765476165746688"
  "bytesToScalar (padded32 (bytesOfString ''cred-1'')) = Some 44981092352263011380450356326379527875721346970416456706337891557585157357568"
proof -
  have a: "padded32 (bytesOfString ''example.com'') \<noteq> []"
    and b: "padded32 (bytesOfString ''cred-1'') \<noteq> []"
    by (simp_all add: padded32_def bytesOfString_def)
  from bigIntOfHex_bytesToHex [OF a]
  have "bigIntOfHex (bytesToHex (padded32 (bytesOfString ''example.com''))) = Some 45896291774552704631216227534719498003970641976714932209004241765476165746688"
    by (simp only: chunk_hex chunk_value)
  then show "bytesToScalar (padded32 (bytesOfString ''example.com'')) = Some 45896291774552704631216227534719498003970641976714932209004241765476165746688"
    by (simp add: bytesToScalar_def jsRem_def FIELD_MODULUS_def)
  from bigIntOfHex_bytesToHex [OF b]
  have "bigIntOfHex (bytesToHex (padded32 (bytesOfString ''cred-1''))) = Some 44981092352263011380450356326379527875721346970416456706337891557585157357568"
    by (simp only: chunk_hex chunk_value)
  then show "bytesToScalar (padded32 (bytesOfString ''cred-1'')) = Some 44981092352263011380450356326379527875721346970416456706337891557585157357568"
    by (simp add: bytesToScalar_def jsRem_def FIELD_MODULUS_def)
qed

lemma chunks_single:
  "chunks31 (bytesOfString ''example.com'') = [bytesOfString ''example.com'']"
  "chunks31 (bytesOfString ''cred-1'') = [bytesOfString ''cred-1'']"
  by (simp_all add: chunks31.simps bytesOfString_def)

lemma wallet_hashes:
  "hashString demoPoseidon ''example.com'' = Some 7237005577332262213973186563042994240829374041602535252466099000494570603184"
  "hashString demoPoseidon ''cred-1'' = Some 7237005577332262213973186563042994240829374041602535252466099000494570603064"
  "hash3 demoPoseidon 5 1 7237005577332262213973186563042994240829374041602535252466099000494570603184 = Some 7237005577332262213973186563042994240829374041602535252466099000494570602686"
  "hash3 demoPoseidon 7237005577332262213973186563042994240829374041602535252466099000494570603064 1 7237005577332262213973186563042994240829374041602535252466099000494570603184 = Some 7237005577332262213973186563042994240829374041602535252466099000494570602745"
  "hash3 demoPoseidon 7237005577332262213973186563042994240829374041602535252466099000494570602686 7237005577332262213973186563042994240829374041602535252466099000494570602745 14 = Some 7237005577332262213973186563042994240829374041602535252466099000494570602941"
  by (simp_all add: hashString_def hashBytes_def chunks_single chunk_scalar hashMany_def
      hash3_def demoPoseidon_def)

lemma bigIntOfHex_toHex:
  assumes "0 \<le> v" and "v < FIELD_MODULUS"
  shows "bigIntOfHex (toHex v) = Some (nat v)"
proof -
  let ?s = "padStart 64 CHR ''0'' (toStringBase 16 (nat v))"
  have l: "length ?s = 64" using field_hex_length [OF assms] assms(1)
    by (simp add: bigIntToString16_def)
  have "list_all lowerHex ?s"
    by (simp add: padStart_def toStringBase16_lowerHex lowerHex_zeros)
  then have ih: "list_all isHexDigit ?s" by (simp add: list_all_iff lowerHex_isHex)
  have ne: "?s \<noteq> []" using l by auto
  have "hexValue ?s = nat v" by (simp add: padStart_def hexValue_padded hexValue_toStringBase)
  then have "bigIntOfHex ?s = Some (nat v)" using bigIntOfHex_hex [OF ne ih] by simp
  then show ?thesis by (simp only: toHex_padded [OF assms])
qed

lemma wallet_hex:
  "toHex 7237005577332262213973186563042994240829374041602535252466099000494570602686 = ''10000000000000000000000000000000000000000000000000000000000000be''"
  "toHex 7237005577332262213973186563042994240829374041602535252466099000494570602745 = ''10000000000000000000000000000000000000000000000000000000000000f9''"
  by (simp_all add: toHex_padded FIELD_MODULUS_def padStart_def toStringBase.simps digitChar_def)

lemma small_hex:
  "bigIntOfHex ''07'' = Some 7" "fromHex ''0e'' = Some 14"
  by (simp_all add: fromHex_def bytesToScalar_def bytesToHex_def digitChar_def bigIntOfHex_def
      testHex_def isJsSpace_def isHexDigit_def hexValue_def hexDigitVal_def jsRem_def
      FIELD_MODULUS_def)

text \<open>
  C2. \<open>generateHybridProof\<close> draws the session nonce once and neither compares the
  pseudonym and the nullifier with \<open>2^252\<close> nor draws again: in this run, where the hash
  in the place of Poseidon returns values from \<open>2^252\<close> upwards, it returns a package
  whose SNARK public inputs carry a pseudonym and a nullifier that are not below \<open>2^252\<close>.
\<close>

theorem hybrid_proof_out_of_range:
  "(case generateHybridProof demoPoseidon False (\<lambda>inputs. None) placeholderBBS drawOne (Some 5)
           FetchFailed 0 walletCredential walletChallenge [] of
      Inl e \<Rightarrow> False
    | Inr pkg \<Rightarrow>
        pseudonym (publicInputs (hybridProof pkg)) =
          ''10000000000000000000000000000000000000000000000000000000000000be'' \<and>
        nullifier (publicInputs (hybridProof pkg)) =
          ''10000000000000000000000000000000000000000000000000000000000000f9'' \<and>
        bigIntOfHex (pseudonym (publicInputs (hybridProof pkg))) = Some (2 ^ 252 + 190) \<and>
        bigIntOfHex (nullifier (publicInputs (hybridProof pkg))) = Some (2 ^ 252 + 249))"
  unfolding wallet_hex [symmetric]
  by (simp add: generateHybridProof_def Let_def walletCredential_def walletChallenge_def
      drawOne_scalar wallet_hashes getNonMembershipProof_def placeholderProof_def
      MERKLE_LEVELS_def bigIntOfOptionalHex_def zeros_bigInt those_replicate small_hex
      generateSnarkProof_def generateDemoSnarkProof_def hexToDecimal_toHex fromHex_toHex
      bigIntOfHex_toHex zeros_decimal hexToDecimal_demo FIELD_MODULUS_def)

section \<open>Properties of Poseidon absorption and of challenge issuance\<close>

lemma hexValue_bytesToHex: "hexValue (bytesToHex bs) = valueBE bs"
proof (induction bs rule: rev_induct)
  case Nil
  show ?case by (simp add: hexValue_def bytesToHex_def valueBE_def)
next
  case (snoc b bs)
  have lt: "unat b div 16 < 16" "unat b mod 16 < 16"
    using unsigned_less [of b, where ?'a = nat] by (simp_all add: div_less_iff_less_mult)
  have "bytesToHex (bs @ [b]) =
          (bytesToHex bs @ [digitChar (unat b div 16)]) @ [digitChar (unat b mod 16)]"
    by (simp add: bytesToHex_def)
  then have "hexValue (bytesToHex (bs @ [b])) =
          16 * (16 * hexValue (bytesToHex bs) + unat b div 16) + unat b mod 16"
    using lt by (simp only: hexValue_snoc hexDigitVal_digitChar)
  also have "\<dots> = 256 * hexValue (bytesToHex bs) + unat b" by simp
  finally show ?case by (simp only: snoc valueBE_snoc)
qed

lemma bytesToScalar_value:
  assumes "bs \<noteq> []"
  shows "bytesToScalar bs = Some (int (valueBE bs) mod FIELD_MODULUS)"
  using bigIntOfHex_bytesToHex [OF assms]
  by (simp add: bytesToScalar_def hexValue_bytesToHex jsRem_def)

lemma padded32_scalar: "bytesToScalar (padded32 c) = Some (chunkValue c)"
proof -
  have "padded32 c \<noteq> []" by (cases c) (simp_all add: padded32_def)
  from bytesToScalar_value [OF this] show ?thesis
    by (simp add: padded32_def chunkValue_def)
qed

lemma those_map_total: "those (map (\<lambda>x. Some (f x)) xs) = Some (map f xs)"
  by (induction xs) simp_all

lemma hashBytes_chunks:
  "hashBytes P data = (if data = [] then Some 0 else P (map chunkValue (chunks31 data)))"
proof -
  have "those (map (\<lambda>chunk. bytesToScalar (padded32 chunk)) (chunks31 data)) =
          Some (map chunkValue (chunks31 data))"
    by (simp only: padded32_scalar those_map_total)
  moreover have "chunks31 data = [] \<longleftrightarrow> data = []"
    by (subst chunks31.simps) simp
  ultimately show ?thesis by (simp add: hashBytes_def hashMany_def)
qed

lemma chunks31_slices:
  "chunks31 data = map (\<lambda>i. take 31 (drop (31 * i) data)) [0..<(length data + 30) div 31]"
proof (induction data rule: chunks31.induct)
  case (1 data)
  show ?case
  proof (cases "data = []")
    case True
    then show ?thesis by (simp add: chunks31.simps)
  next
    case False
    let ?k = "(length data - 31 + 30) div 31"
    from False have n: "0 < length data" by simp
    have k: "(length data + 30) div 31 = Suc ?k" using ceil31_step [OF n] by simp
    have "chunks31 data = take 31 data # chunks31 (drop 31 data)"
      using False by (subst chunks31.simps) simp
    also have "chunks31 (drop 31 data) =
        map (\<lambda>i. take 31 (drop (31 * i) (drop 31 data))) [0..<?k]"
      using 1 [OF False] by simp
    also have "\<dots> = map (\<lambda>i. take 31 (drop (31 * i) data)) (map Suc [0..<?k])"
      by (simp add: add.commute)
    also have "take 31 data # \<dots> = map (\<lambda>i. take 31 (drop (31 * i) data)) (0 # map Suc [0..<?k])"
      by simp
    also have "0 # map Suc [0..<?k] = [0..<Suc ?k]"
      by (simp only: map_Suc_upt upt_conv_Cons [of 0 "Suc ?k", OF zero_less_Suc])
    finally show ?thesis by (simp only: k)
  qed
qed

text \<open>
  C7, amended. \<open>hashBytes\<close> (and so \<open>hashString\<close>) cuts the input into the
  \<open>\<lceil>n / 31\<rceil>\<close> slices \<open>data[31 i .. 31 i + 31)\<close>, turns each slice into the value it
  encodes when followed by zero bytes up to 32 and read as a big-endian number modulo the
  field modulus, and absorbs these values in a single variadic Poseidon call over the whole
  list; the empty input gives 0 without any Poseidon call.
\<close>

theorem poseidon_absorption:
  "hashBytes P data = (if data = [] then Some 0 else P (map chunkValue (chunks31 data))) \<and>
   chunks31 data = map (\<lambda>i. take 31 (drop (31 * i) data)) [0..<(length data + 30) div 31] \<and>
   (\<forall>c\<in>set (chunks31 data).
      c \<noteq> [] \<and> length c \<le> 31 \<and> 0 \<le> chunkValue c \<and> chunkValue c < FIELD_MODULUS)"
proof (intro conjI ballI)
  show "hashBytes P data = (if data = [] then Some 0 else P (map chunkValue (chunks31 data)))"
    by (rule hashBytes_chunks)
  show "chunks31 data = map (\<lambda>i. take 31 (drop (31 * i) data)) [0..<(length data + 30) div 31]"
    by (rule chunks31_slices)
next
  fix c assume c: "c \<in> set (chunks31 data)"
  then show "c \<noteq> []" by (rule chunks31_nonempty)
  from c show "length c \<le> 31" by (subst (asm) chunks31_slices) auto
  show "0 \<le> chunkValue c" "chunkValue c < FIELD_MODULUS"
    by (simp_all add: chunkValue_def FIELD_MODULUS_def)
qed

theorem poseidon_absorption_witness:
  "hashBytes demoPoseidon (bytesOfString ''a'') = demoPoseidon [chunkValue (bytesOfString ''a'')] \<and>
   chunks31 (bytesOfString ''a'') = [bytesOfString ''a''] \<and>
   bytesOfString ''a'' \<noteq> [] \<and> length (bytesOfString ''a'') \<le> 31 \<and>
   0 \<le> chunkValue (bytesOfString ''a'') \<and> chunkValue (bytesOfString ''a'') < FIELD_MODULUS"
proof -
  have s: "[0..<(length (bytesOfString ''a'') + 30) div 31] = [0]"
    by (simp add: bytesOfString_def)
  from poseidon_absorption [of demoPoseidon "bytesOfString ''a''"]
  have a: "hashBytes demoPoseidon (bytesOfString ''a'') =
        (if bytesOfString ''a'' = [] then Some 0
         else demoPoseidon (map chunkValue (chunks31 (bytesOfString ''a''))))"
    and b: "chunks31 (bytesOfString ''a'') =
        map (\<lambda>i. take 31 (drop (31 * i) (bytesOfString ''a''))) [0..<(length (bytesOfString ''a'') + 30) div 31]"
    and c: "\<forall>c\<in>set (chunks31 (bytesOfString ''a'')).
      c \<noteq> [] \<and> length c \<le> 31 \<and> 0 \<le> chunkValue c \<and> chunkValue c < FIELD_MODULUS"
    by blast+
  from b have b': "chunks31 (bytesOfString ''a'') = [bytesOfString ''a'']"
    unfolding s by (simp add: bytesOfString_def)
  from c have "bytesOfString ''a'' \<noteq> [] \<and> length (bytesOfString ''a'') \<le> 31 \<and>
      0 \<le> chunkValue (bytesOfString ''a'') \<and> chunkValue (bytesOfString ''a'') < FIELD_MODULUS"
    unfolding b' by simp
  moreover from this a have
    "hashBytes demoPoseidon (bytesOfString ''a'') = demoPoseidon [chunkValue (bytesOfString ''a'')]"
    unfolding b' by simp
  ultimately show ?thesis using b' by blast
qed

lemma bigIntOfHex_padded:
  assumes "0 \<le> v" and "v < FIELD_MODULUS"
  shows "bigIntOfHex (padStart 64 CHR ''0'' (toStringBase 16 (nat v))) = Some (nat v)"
  using bigIntOfHex_toHex [OF assms] by (simp only: toHex_padded [OF assms])

text \<open>
  C9, amended. With 8 random bytes for the identifier and 32 for the challenge, and a
  registry root at hand, \<open>generateChallenge\<close> returns and stores, under its identifier,
  the challenge whose identifier is \<open>"ch_"\<close>, the base-36 reading of the clock taken in
  \<open>generateChallengeId\<close>, an underscore and the 16 hexadecimal characters of the 8 bytes;
  whose value is the 64-character hexadecimal rendering of the scalar \<open>v\<close> that the 32
  drawn bytes give, read as a big-endian number and reduced modulo the BLS12-381 scalar
  modulus; and whose \<open>expiresAt\<close> is \<open>createdAt\<close> plus 5 minutes.
\<close>

theorem challenge_issuance_postcondition:
  assumes "length idBytes = 8" and "length challengeBytes = 32"
    and "getRegistryRoot sha256 rootResponse = Some rr"
  shows "let v = int (valueBE challengeBytes) mod FIELD_MODULUS;
             ch = \<lparr> challengeId = ''ch_'' @ toStringBase 36 nowId @ ''_'' @ bytesToHex idBytes,
                    challengeValue = padStart 64 CHR ''0'' (toStringBase 16 (nat v)),
                    challengeDomain = domainName, challengeRegistryRoot = rr,
                    circuitId = CIRCUIT_ID, createdAt = nowCreated,
                    expiresAt = nowCreated + 5 * 60 * 1000 \<rparr>
         in generateChallenge sha256 nowId idBytes challengeBytes rootResponse nowCreated
              store domainName = Inr (store(challengeId ch \<mapsto> ch), ch) \<and>
            length (bytesToHex idBytes) = 16 \<and> list_all isHexDigit (bytesToHex idBytes) \<and>
            0 \<le> v \<and> v < FIELD_MODULUS \<and> length (challengeValue ch) = 64 \<and>
            bigIntOfHex (challengeValue ch) = Some (nat v)"
proof -
  from assms(2) have ne: "challengeBytes \<noteq> []" by auto
  define v where "v = int (valueBE challengeBytes) mod FIELD_MODULUS"
  have j: "jsRem (int (hexValue (bytesToHex challengeBytes))) FIELD_MODULUS = v"
    by (simp add: jsRem_def hexValue_bytesToHex v_def)
  have v: "0 \<le> v" "v < FIELD_MODULUS" by (simp_all add: v_def FIELD_MODULUS_def)
  have len: "length (padStart 64 CHR ''0'' (toStringBase 16 (nat v))) = 64"
    using field_hex_length [OF v] v(1) by (simp add: bigIntToString16_def)
  have run: "generateChallenge sha256 nowId idBytes challengeBytes rootResponse nowCreated
       store domainName =
     Inr (store(''ch_'' @ toStringBase 36 nowId @ ''_'' @ bytesToHex idBytes \<mapsto>
            \<lparr> challengeId = ''ch_'' @ toStringBase 36 nowId @ ''_'' @ bytesToHex idBytes,
              challengeValue = padStart 64 CHR ''0'' (toStringBase 16 (nat v)),
              challengeDomain = domainName, challengeRegistryRoot = rr,
              circuitId = CIRCUIT_ID, createdAt = nowCreated,
              expiresAt = nowCreated + 5 * 60 * 1000 \<rparr>),
          \<lparr> challengeId = ''ch_'' @ toStringBase 36 nowId @ ''_'' @ bytesToHex idBytes,
            challengeValue = padStart 64 CHR ''0'' (toStringBase 16 (nat v)),
            challengeDomain = domainName, challengeRegistryRoot = rr,
            circuitId = CIRCUIT_ID, createdAt = nowCreated,
            expiresAt = nowCreated + 5 * 60 * 1000 \<rparr>)"
    unfolding generateChallenge_result [OF ne assms(3)] Let_def j by simp
  show ?thesis
    unfolding Let_def v_def [symmetric]
    using run assms(1) v len bigIntOfHex_padded [OF v]
    by (simp add: bytesToHex_length bytesToHex_hex)
qed

lemma ones_value:
  "int (valueBE (replicate 32 (1 :: byte))) mod FIELD_MODULUS =
     454086624460063511464984254936031011189294057512315937409637584344757371137"
  by (simp add: valueBE_def replicate_numeral_Cons FIELD_MODULUS_def)

lemma ones_hex:
  "padStart 64 CHR ''0''
     (toStringBase 16 (nat 454086624460063511464984254936031011189294057512315937409637584344757371137)) =
     ''0101010101010101010101010101010101010101010101010101010101010101''"
  by (simp add: padStart_def toStringBase.simps digitChar_def)

theorem challenge_issuance_postcondition_witness:
  "length (replicate 8 (0 :: byte)) = 8 \<and> length (replicate 32 (1 :: byte)) = 32 \<and>
   getRegistryRoot (\<lambda>bs. []) (Response True (Some ''00'')) = Some ''00'' \<and>
   (case generateChallenge (\<lambda>bs. []) 1000 (replicate 8 0) (replicate 32 1)
           (Response True (Some ''00'')) 1001 Map.empty ''example.com'' of
      Inl e \<Rightarrow> False
    | Inr (store', ch) \<Rightarrow>
        challengeValue ch = ''0101010101010101010101010101010101010101010101010101010101010101'' \<and>
        expiresAt ch = createdAt ch + 5 * 60 * 1000 \<and> store' (challengeId ch) = Some ch)"
proof -
  have a: "length (replicate 8 (0 :: byte)) = 8" "length (replicate 32 (1 :: byte)) = 32"
    by simp_all
  have b: "getRegistryRoot (\<lambda>bs. []) (Response True (Some ''00'')) = Some ''00''"
    by (simp add: getRegistryRoot_def)
  from challenge_issuance_postcondition [OF a b, of 1000 "''example.com''" 1001 Map.empty]
  have "case generateChallenge (\<lambda>bs. []) 1000 (replicate 8 0) (replicate 32 1)
           (Response True (Some ''00'')) 1001 Map.empty ''example.com'' of
      Inl e \<Rightarrow> False
    | Inr (store', ch) \<Rightarrow>
        challengeValue ch = ''0101010101010101010101010101010101010101010101010101010101010101'' \<and>
        expiresAt ch = createdAt ch + 5 * 60 * 1000 \<and> store' (challengeId ch) = Some ch"
    unfolding Let_def ones_value ones_hex by simp
  with a b show ?thesis by blast
qed

end
